theory Spec2Isabelle
  imports Complex_Main "HOL-Library.Word"
begin

unbundle bit_operations_syntax

text \<open>
  A model of \<open>src/pystack.cc\<close>, the whole of the program's driver: \<open>RunOnce\<close>,
  \<open>FrameHash\<close> and \<open>main\<close> with its option loop, its sampling loop and its output
  loop. The functions it calls from \<open>ptrace.h\<close>, \<open>pyframe.h\<close>, \<open>exc.h\<close>, \<open>config.h\<close>
  and the standard library are parameters of the model. Line numbers are those of
  \<open>pystack.cc\<close>.
\<close>

section \<open>Data model\<close>

text \<open>
  Modelled from the spec: the class \<open>Frame\<close> is declared in \<open>pyframe.h\<close>, which is not
  among the sources. The spec gives it three fields and says that two frames are equal iff
  all three fields match, which is equality of the record. (\<open>file\<close> is a keyword
  of Isabelle, so the fields carry the prefix \<open>frame_\<close>.)
\<close>

record Frame =
  frame_file :: string
  frame_name :: string
  frame_line :: nat

type_synonym frames_t = "Frame list"

text \<open>
  The exception classes of \<open>exc.h\<close> and \<open>std::exception\<close>, each carrying its \<open>what()\<close>
  message. The three \<open>catch\<close> clauses of \<open>main\<close> tell them apart in this order.
\<close>

datatype exc = FatalException string | NonFatalException string | StdException string

text \<open>
  The calls that \<open>main\<close> makes on the target, in the order it makes them. \<open>Attach\<close> and
  \<open>Detach\<close> carry the pid and whether the call returned normally; \<open>Walk\<close> carries what
  \<open>GetStack\<close> returned or threw; \<open>Sleep\<close> carries the interval in microseconds.
\<close>

datatype event = Attach int bool | Detach int bool | Walk "exc + frames_t" | Sleep int

text \<open>
  The state threaded through \<open>main\<close>: the outside world (of an abstract type), the trace
  of calls, and what \<open>main\<close> itself wrote to \<open>std::cout\<close> and \<open>std::cerr\<close>. (The
  messages that \<open>getopt_long\<close> prints on its own are not part of \<open>err\<close>.)
\<close>

record 'w state =
  world :: 'w
  trace :: "event list"
  out :: string
  err :: string

text \<open>
  \<open>struct option\<close> of \<open>getopt.h\<close>: the name, \<open>has_arg\<close>, whether \<open>flag\<close> is a non-null
  pointer, and \<open>val\<close>.
\<close>

datatype has_arg = no_argument | required_argument

type_synonym option_t = "string \<times> has_arg \<times> bool \<times> int"

text \<open>
  Everything \<open>main\<close> calls that is not defined in \<open>pystack.cc\<close> is a field of the
  environment. Functions that touch the target or the clock transform the world; a
  function that can throw returns a sum, \<open>Inl\<close> the exception. The type \<open>'d\<close> stands
  for \<open>double\<close>: \<open>d_zero\<close> and \<open>d_rate\<close> are the literals \<open>0\<close> and \<open>0.01\<close>,
  \<open>truthy\<close> is the conversion to \<open>bool\<close> in \<open>if (seconds)\<close>, and \<open>micros x\<close> is
  \<open>static_cast<long>(x * 1000000)\<close>. \<open>stod\<close> returns \<open>None\<close> where \<open>std::stod\<close> throws.
  \<open>getopt_long\<close> maps \<open>argv\<close>, the short option string and the table of long
  options to the values its successive calls return before \<open>-1\<close> (each with
  \<open>optarg\<close>), the final \<open>optind\<close> and the permuted \<open>argv\<close>.
  Clock readings are in microseconds.
\<close>

record ('w, 'd) env =
  getopt_long :: "string list \<Rightarrow> string \<Rightarrow> option_t list
                    \<Rightarrow> (int \<times> string) list \<times> int \<times> string list"
  stod :: "string \<Rightarrow> 'd option"
  d_zero :: 'd
  d_rate :: 'd
  truthy :: "'d \<Rightarrow> bool"
  micros :: "'d \<Rightarrow> int"
  PACKAGE_STRING :: string
  PtraceAttach :: "int \<Rightarrow> 'w \<Rightarrow> (exc + unit) \<times> 'w"
  PtraceDetach :: "int \<Rightarrow> 'w \<Rightarrow> (exc + unit) \<times> 'w"
  ThreadStateAddr :: "int \<Rightarrow> 'w \<Rightarrow> (exc + nat) \<times> 'w"
  GetStack :: "int \<Rightarrow> nat \<Rightarrow> 'w \<Rightarrow> (exc + frames_t) \<times> 'w"
  now :: "'w \<Rightarrow> int \<times> 'w"
  sleep_for :: "int \<Rightarrow> 'w \<Rightarrow> 'w"
  show_frame :: "Frame \<Rightarrow> string"
  hash_size_t :: "nat \<Rightarrow> 64 word"
  hash_string :: "string \<Rightarrow> 64 word"

section \<open>Printing integers\<close>

text \<open>\<open>operator<<\<close> on \<open>size_t\<close> and \<open>long\<close>: decimal, no padding, a minus sign if negative.\<close>

definition digit_char :: "nat \<Rightarrow> char" where
  "digit_char d = ''0123456789'' ! d"

function show_nat :: "nat \<Rightarrow> string" where
  "show_nat n = (if n < 10 then [digit_char n] else show_nat (n div 10) @ [digit_char (n mod 10)])"
  by pat_completeness auto
termination
  by (relation "measure id") auto

declare show_nat.simps [simp del]

definition show_int :: "int \<Rightarrow> string" where
  "show_int i = (if i < 0 then CHR ''-'' # show_nat (nat (- i)) else show_nat (nat i))"

section \<open>The functions of the anonymous namespace\<close>

definition usage_str :: string where
  "usage_str = ''Usage: pystack [-h|--help] PID'' @ [CHR 0x0A]"

definition endl :: string where
  "endl = [CHR 0x0A]"

subsection \<open>Calls on the target, logged\<close>

definition is_ok :: "exc + 'a \<Rightarrow> bool" where
  "is_ok r = (case r of Inl _ \<Rightarrow> False | Inr _ \<Rightarrow> True)"

definition attach :: "('w, 'd) env \<Rightarrow> int \<Rightarrow> 'w state \<Rightarrow> (exc + unit) \<times> 'w state" where
  "attach env pid st =
     (case PtraceAttach env pid (world st) of
        (r, w) \<Rightarrow> (r, st\<lparr>world := w, trace := trace st @ [Attach pid (is_ok r)]\<rparr>))"

definition detach :: "('w, 'd) env \<Rightarrow> int \<Rightarrow> 'w state \<Rightarrow> (exc + unit) \<times> 'w state" where
  "detach env pid st =
     (case PtraceDetach env pid (world st) of
        (r, w) \<Rightarrow> (r, st\<lparr>world := w, trace := trace st @ [Detach pid (is_ok r)]\<rparr>))"

definition get_stack :: "('w, 'd) env \<Rightarrow> int \<Rightarrow> nat \<Rightarrow> 'w state \<Rightarrow> (exc + frames_t) \<times> 'w state" where
  "get_stack env pid addr st =
     (case GetStack env pid addr (world st) of
        (r, w) \<Rightarrow> (r, st\<lparr>world := w, trace := trace st @ [Walk r]\<rparr>))"

definition sleep :: "('w, 'd) env \<Rightarrow> int \<Rightarrow> 'w state \<Rightarrow> 'w state" where
  "sleep env interval st =
     st\<lparr>world := sleep_for env interval (world st), trace := trace st @ [Sleep interval]\<rparr>"

definition print :: "string \<Rightarrow> 'w state \<Rightarrow> 'w state" where
  "print s st = st\<lparr>out := out st @ s\<rparr>"

definition eprint :: "string \<Rightarrow> 'w state \<Rightarrow> 'w state" where
  "eprint s st = st\<lparr>err := err st @ s\<rparr>"

subsection \<open>RunOnce\<close>

text \<open>The stack is printed from \<open>rbegin\<close> to \<open>rend\<close>, one frame per line.\<close>

definition RunOnce :: "('w, 'd) env \<Rightarrow> int \<Rightarrow> nat \<Rightarrow> 'w state \<Rightarrow> (exc + unit) \<times> 'w state" where
  "RunOnce env pid addr st =
     (case get_stack env pid addr st of
        (Inl e, st1) \<Rightarrow> (Inl e, st1)
      | (Inr stack, st1) \<Rightarrow>
          (Inr (), print (concat (map (\<lambda>f. show_frame env f @ endl) (rev stack))) st1))"

subsection \<open>FrameHash\<close>

text \<open>
  \<open>size_t\<close> is 64 bits wide. The loop runs \<open>i\<close> from \<open>0\<close> to \<open>frames.size()\<close> and
  xors two hash values into the accumulator at every step.
\<close>

definition FrameHash :: "('w, 'd) env \<Rightarrow> frames_t \<Rightarrow> 64 word" where
  "FrameHash env frames =
     fold (\<lambda>i hash. (hash XOR hash_size_t env i) XOR hash_string env (frame_file (frames ! i)))
       [0 ..< length frames] 0"

subsection \<open>The bucket map\<close>

text \<open>
  \<open>std::unordered_map<frames_t, size_t, FrameHash>\<close> as a list of entries in iteration
  order. An entry matches a key when the hash values agree and the keys are equal
  (\<open>std::equal_to\<close> on vectors of frames). \<open>find\<close> returns the position of the matching
  entry. The standard leaves the iteration order open; here a new entry goes to the end.
  Counts are \<open>size_t\<close>; they are natural numbers here, since no run reaches the
  18446744073709551616 samples at which \<open>size_t\<close> wraps.
\<close>

type_synonym buckets_t = "(frames_t \<times> nat) list"

fun umap_find :: "('w, 'd) env \<Rightarrow> frames_t \<Rightarrow> buckets_t \<Rightarrow> nat option" where
  "umap_find env frames [] = None"
| "umap_find env frames ((k, c) # kvs) =
     (if FrameHash env k = FrameHash env frames \<and> k = frames then Some 0
      else map_option Suc (umap_find env frames kvs))"

text \<open>Lines 125 to 130: insert the stack with count 1, or increment its count.\<close>

definition count_stack :: "('w, 'd) env \<Rightarrow> frames_t \<Rightarrow> buckets_t \<Rightarrow> buckets_t" where
  "count_stack env frames buckets =
     (case umap_find env frames buckets of
        None \<Rightarrow> buckets @ [(frames, 1)]
      | Some i \<Rightarrow> buckets[i := (fst (buckets ! i), snd (buckets ! i) + 1)])"

section \<open>The sampling loop\<close>

text \<open>
  Lines 123 to 133, the inner \<open>try\<close>: one capture attempt. A stack that \<open>GetStack\<close>
  returns is counted in the bucket map; a \<open>NonFatalException\<close> increments \<open>empty\<close>;
  any other exception leaves the loop. (The variables \<open>empty\<close> and \<open>end\<close> of the source
  are \<open>n_empty\<close> and \<open>end_time\<close> here: the one is a constant of HOL, the other a
  keyword.)
\<close>

definition capture ::
  "('w, 'd) env \<Rightarrow> int \<Rightarrow> nat \<Rightarrow> buckets_t \<Rightarrow> nat \<Rightarrow> 'w state \<Rightarrow> (exc + buckets_t \<times> nat) \<times> 'w state"
where
  "capture env pid addr buckets n_empty st =
     (case get_stack env pid addr st of
        (Inr frames, st1) \<Rightarrow> (Inr (count_stack env frames buckets, n_empty), st1)
      | (Inl (NonFatalException m), st1) \<Rightarrow> (Inr (buckets, n_empty + 1), st1)
      | (Inl e, st1) \<Rightarrow> (Inl e, st1))"

text \<open>
  One pass through the body of the loop, lines 123 to 140: the pass ends with an
  exception that leaves the loop, with the \<open>break\<close> of line 136, or at the end of the
  body with the target attached again.
\<close>

datatype pass = Thrown exc | Break buckets_t nat | Continue buckets_t nat

definition loop_body ::
  "('w, 'd) env \<Rightarrow> int \<Rightarrow> nat \<Rightarrow> int \<Rightarrow> int \<Rightarrow> buckets_t \<Rightarrow> nat \<Rightarrow> 'w state \<Rightarrow> pass \<times> 'w state"
where
  "loop_body env pid addr interval end_time buckets n_empty st =
     (case capture env pid addr buckets n_empty st of
        (Inl e, st1) \<Rightarrow> (Thrown e, st1)
      | (Inr (buckets1, n_empty1), st1) \<Rightarrow>
          (case now env (world st1) of
             (t, w) \<Rightarrow>
               if t + interval \<ge> end_time then (Break buckets1 n_empty1, st1\<lparr>world := w\<rparr>)
               else
                 (case detach env pid (st1\<lparr>world := w\<rparr>) of
                    (Inl e, st2) \<Rightarrow> (Thrown e, st2)
                  | (Inr _, st2) \<Rightarrow>
                      (case attach env pid (sleep env interval st2) of
                         (Inl e, st3) \<Rightarrow> (Thrown e, st3)
                       | (Inr _, st3) \<Rightarrow> (Continue buckets1 n_empty1, st3)))))"

text \<open>
  Lines 122 to 141. The loop ends when the clock says so, which it may never do, so
  the recursion is on a bound for the number of passes: \<open>None\<close> is a loop that made
  that many passes without leaving.
\<close>

fun sample_loop ::
  "nat \<Rightarrow> ('w, 'd) env \<Rightarrow> int \<Rightarrow> nat \<Rightarrow> int \<Rightarrow> int \<Rightarrow> buckets_t \<Rightarrow> nat \<Rightarrow> 'w state
     \<Rightarrow> ((exc + buckets_t \<times> nat) \<times> 'w state) option"
where
  "sample_loop 0 env pid addr interval end_time buckets n_empty st = None"
| "sample_loop (Suc fuel) env pid addr interval end_time buckets n_empty st =
     (case loop_body env pid addr interval end_time buckets n_empty st of
        (Thrown e, st1) \<Rightarrow> Some (Inl e, st1)
      | (Break buckets1 n_empty1, st1) \<Rightarrow> Some (Inr (buckets1, n_empty1), st1)
      | (Continue buckets1 n_empty1, st1) \<Rightarrow>
          sample_loop fuel env pid addr interval end_time buckets1 n_empty1 st1)"

text \<open>Lines 115 to 141: the interval, the empty accumulators, the end time, the loop.\<close>

definition sampling ::
  "nat \<Rightarrow> ('w, 'd) env \<Rightarrow> int \<Rightarrow> nat \<Rightarrow> 'd \<Rightarrow> 'd \<Rightarrow> 'w state
     \<Rightarrow> ((exc + buckets_t \<times> nat) \<times> 'w state) option"
where
  "sampling fuel env pid addr seconds sample_rate st =
     (let interval = micros env sample_rate in
      case now env (world st) of
        (t, w) \<Rightarrow>
          sample_loop fuel env pid addr interval (t + micros env seconds) [] 0 (st\<lparr>world := w\<rparr>))"

section \<open>Printing the folded stacks\<close>

text \<open>
  Lines 151 to 156 for one bucket with a stack that is not empty: \<open>last\<close> is the reverse
  iterator of the first frame of the vector; the frames from \<open>rbegin\<close> up to it are each
  followed by a semicolon, then comes the frame at \<open>last\<close>, a space, the count, a newline.
\<close>

definition print_bucket :: "('w, 'd) env \<Rightarrow> Frame \<Rightarrow> frames_t \<Rightarrow> nat \<Rightarrow> string" where
  "print_bucket env first rest n =
     concat (map (\<lambda>f. show_frame env f @ '';'') (rev rest))
       @ show_frame env first @ '' '' @ show_nat n @ endl"

text \<open>
  Lines 146 to 157. \<open>Some 1\<close> is the \<open>return 1\<close> of line 149; \<open>None\<close> is the loop
  running to its end.
\<close>

fun print_buckets :: "('w, 'd) env \<Rightarrow> buckets_t \<Rightarrow> 'w state \<Rightarrow> int option \<times> 'w state" where
  "print_buckets env [] st = (None, st)"
| "print_buckets env (([], n) # kvs) st = (Some 1, eprint (''uh oh'' @ endl) st)"
| "print_buckets env ((first # rest, n) # kvs) st =
     print_buckets env kvs (print (print_bucket env first rest n) st)"

text \<open>Lines 142 to 157.\<close>

definition print_results ::
  "('w, 'd) env \<Rightarrow> buckets_t \<Rightarrow> nat \<Rightarrow> 'w state \<Rightarrow> int option \<times> 'w state" where
  "print_results env buckets n_empty st =
     print_buckets env buckets
       (if n_empty \<noteq> 0 then print (''(null) '' @ show_nat n_empty @ endl) st else st)"

section \<open>main\<close>

text \<open>
  How \<open>main\<close> ends: it returns an exit code, it calls \<open>abort()\<close>, or an exception that
  nothing catches ends it through \<open>std::terminate\<close>.
\<close>

datatype outcome = Return int | Abort | Terminate

text \<open>Lines 62 to 67 and the third argument of line 69, with \<open>'h'\<close> = 104 and so on.\<close>

definition long_options :: "option_t list" where
  "long_options =
     [(''help'', no_argument, False, 104),
      (''rate'', required_argument, False, 114),
      (''seconds'', required_argument, False, 115),
      (''version'', no_argument, False, 118)]"

definition optstring :: string where
  "optstring = ''hjr:s:v''"

text \<open>
  Lines 61 to 100, over the values that \<open>getopt_long\<close> returns. The characters are the
  integers \<open>'h'\<close> = 104, \<open>'r'\<close> = 114, \<open>'s'\<close> = 115, \<open>'v'\<close> = 118 and \<open>'?'\<close> = 63. No entry of
  \<open>long_options\<close> has a flag, so case 0 does nothing. \<open>std::stod\<close> is called outside the
  \<open>try\<close> block: when it throws, nothing catches the exception and the program
  terminates. The result is \<open>Inl\<close> when \<open>main\<close> ends inside the loop and \<open>Inr\<close> with
  \<open>seconds\<close> and \<open>sample_rate\<close> otherwise.
\<close>

fun parse_options ::
  "('w, 'd) env \<Rightarrow> (int \<times> string) list \<Rightarrow> 'd \<Rightarrow> 'd \<Rightarrow> 'w state \<Rightarrow> (outcome \<times> 'w state) + ('d \<times> 'd)"
where
  "parse_options env [] seconds sample_rate st = Inr (seconds, sample_rate)"
| "parse_options env ((c, optarg) # rets) seconds sample_rate st =
     (if c = 0 then parse_options env rets seconds sample_rate st
      else if c = 104 then Inl (Return 0, print usage_str st)
      else if c = 114 then
        (case stod env optarg of
           None \<Rightarrow> Inl (Terminate, st)
         | Some x \<Rightarrow> parse_options env rets seconds x st)
      else if c = 115 then
        (case stod env optarg of
           None \<Rightarrow> Inl (Terminate, st)
         | Some x \<Rightarrow> parse_options env rets x sample_rate st)
      else if c = 118 then Inl (Return 0, print (PACKAGE_STRING env @ endl) st)
      else if c = 63 then parse_options env rets seconds sample_rate st
      else Inl (Abort, st))"

text \<open>
  \<open>std::strtol\<close> with base 10 in the C locale: white space is skipped, one sign is
  read, then the longest run of decimal digits; the value is clamped to the range of
  \<open>long\<close> (64 bits), and a string with no digits at that place gives 0.
\<close>

definition isspace :: "char \<Rightarrow> bool" where
  "isspace c = (c \<in> set [CHR '' '', CHR 0x09, CHR 0x0A, CHR 0x0B, CHR 0x0C, CHR 0x0D])"

definition isdigit :: "char \<Rightarrow> bool" where
  "isdigit c = (c \<in> set ''0123456789'')"

definition digit_value :: "char \<Rightarrow> int" where
  "digit_value c = of_char c - 48"

definition LONG_MAX :: int where
  "LONG_MAX = 9223372036854775807"

definition LONG_MIN :: int where
  "LONG_MIN = - 9223372036854775808"

definition digits_value :: "string \<Rightarrow> int" where
  "digits_value ds = foldl (\<lambda>acc c. 10 * acc + digit_value c) 0 ds"

definition strtol :: "string \<Rightarrow> int" where
  "strtol s =
     (let s1 = dropWhile isspace s;
          neg = (case s1 of c # _ \<Rightarrow> c = CHR ''-'' | [] \<Rightarrow> False);
          s2 = (case s1 of c # cs \<Rightarrow> if c = CHR ''-'' \<or> c = CHR ''+'' then cs else s1 | [] \<Rightarrow> s1);
          v = digits_value (takeWhile isdigit s2)
      in if neg then max LONG_MIN (- v) else min LONG_MAX v)"

definition PID_MAX :: int where
  "PID_MAX = 2147483647"

definition PID_MIN :: int where
  "PID_MIN = - 2147483648"

text \<open>
  Lines 111 to 160, the body of the \<open>try\<close> block: \<open>Inl\<close> is an exception that leaves
  it, \<open>Inr\<close> the value that \<open>main\<close> returns.
\<close>

definition try_block ::
  "nat \<Rightarrow> ('w, 'd) env \<Rightarrow> int \<Rightarrow> 'd \<Rightarrow> 'd \<Rightarrow> 'w state \<Rightarrow> ((exc + int) \<times> 'w state) option"
where
  "try_block fuel env pid seconds sample_rate st =
     (case attach env pid st of
        (Inl e, st1) \<Rightarrow> Some (Inl e, st1)
      | (Inr _, st1) \<Rightarrow>
          (case ThreadStateAddr env pid (world st1) of
             (Inl e, w) \<Rightarrow> Some (Inl e, st1\<lparr>world := w\<rparr>)
           | (Inr addr, w) \<Rightarrow>
               if truthy env seconds then
                 (case sampling fuel env pid addr seconds sample_rate (st1\<lparr>world := w\<rparr>) of
                    None \<Rightarrow> None
                  | Some (Inl e, st2) \<Rightarrow> Some (Inl e, st2)
                  | Some (Inr (buckets, n_empty), st2) \<Rightarrow>
                      (case print_results env buckets n_empty st2 of
                         (Some code, st3) \<Rightarrow> Some (Inr code, st3)
                       | (None, st3) \<Rightarrow> Some (Inr 0, st3)))
               else
                 (case RunOnce env pid addr (st1\<lparr>world := w\<rparr>) of
                    (Inl e, st2) \<Rightarrow> Some (Inl e, st2)
                  | (Inr _, st2) \<Rightarrow> Some (Inr 0, st2))))"

text \<open>Lines 111 to 171: the \<open>try\<close> block with its three handlers.\<close>

definition run ::
  "nat \<Rightarrow> ('w, 'd) env \<Rightarrow> int \<Rightarrow> 'd \<Rightarrow> 'd \<Rightarrow> 'w state \<Rightarrow> (outcome \<times> 'w state) option"
where
  "run fuel env pid seconds sample_rate st =
     (case try_block fuel env pid seconds sample_rate st of
        None \<Rightarrow> None
      | Some (Inr code, st1) \<Rightarrow> Some (Return code, st1)
      | Some (Inl (FatalException m), st1) \<Rightarrow> Some (Return 1, eprint (m @ endl) st1)
      | Some (Inl (NonFatalException m), st1) \<Rightarrow> Some (Return 0, eprint (m @ endl) st1)
      | Some (Inl (StdException m), st1) \<Rightarrow> Some (Return 1, eprint (m @ endl) st1))"

definition init_state :: "'w \<Rightarrow> 'w state" where
  "init_state w = \<lparr>world = w, trace = [], out = [], err = []\<rparr>"

text \<open>
  The whole of \<open>main\<close>. \<open>argc\<close> is the length of \<open>argv\<close>. Line 105 reads
  \<open>argv[argc - 1]\<close> of the vector as \<open>getopt_long\<close> left it; \<open>optind\<close> is at least 1, so
  the index is in range once line 101 is passed.
\<close>

definition main :: "nat \<Rightarrow> ('w, 'd) env \<Rightarrow> string list \<Rightarrow> 'w \<Rightarrow> (outcome \<times> 'w state) option" where
  "main fuel env argv w =
     (case getopt_long env argv optstring long_options of
        (rets, optind, argv1) \<Rightarrow>
          (case parse_options env rets (d_zero env) (d_rate env) (init_state w) of
             Inl r \<Rightarrow> Some r
           | Inr (seconds, sample_rate) \<Rightarrow>
               let argc = int (length argv) in
               if optind \<noteq> argc - 1 then Some (Return 1, eprint usage_str (init_state w))
               else
                 let pid = strtol (argv1 ! nat (argc - 1)) in
                 if pid > PID_MAX \<or> pid < PID_MIN then
                   Some (Return 1,
                     eprint (''PID '' @ show_int pid @ '' is out of valid PID range.'' @ endl)
                       (init_state w))
                 else run fuel env pid seconds sample_rate (init_state w)))"

section \<open>The GNU option parser\<close>

text \<open>
  \<open>getopt_long\<close> belongs to the C library. This is its documented behaviour for an option
  string that does not begin with \<open>+\<close>, \<open>-\<close> or \<open>:\<close> and with \<open>POSIXLY_CORRECT\<close> unset:
  options and their arguments are scanned from left to right, arguments that are not
  options are moved behind them, \<open>--\<close> ends the options, and every error returns
  \<open>'?'\<close> = 63. The theorems about \<open>main\<close> hold for any parser; this one serves to run
  \<open>main\<close> on a command line.
\<close>

fun short_spec :: "string \<Rightarrow> char \<Rightarrow> has_arg option" where
  "short_spec [] c = None"
| "short_spec (x # xs) c =
     (if x = c \<and> c \<noteq> CHR '':'' then
        Some (case xs of y # _ \<Rightarrow> if y = CHR '':'' then required_argument else no_argument
                       | [] \<Rightarrow> no_argument)
      else short_spec xs c)"

text \<open>
  The characters of one argument after its dash, with the argument that follows it in
  \<open>argv\<close> if there is one. The result holds the values returned and whether the
  following argument was taken as an option argument.
\<close>

fun scan_cluster :: "string \<Rightarrow> string \<Rightarrow> string option \<Rightarrow> (int \<times> string) list \<times> bool" where
  "scan_cluster os [] nxt = ([], False)"
| "scan_cluster os (c # cs) nxt =
     (case short_spec os c of
        None \<Rightarrow> (case scan_cluster os cs nxt of (rs, used) \<Rightarrow> ((63, []) # rs, used))
      | Some no_argument \<Rightarrow>
          (case scan_cluster os cs nxt of (rs, used) \<Rightarrow> ((of_char c, []) # rs, used))
      | Some required_argument \<Rightarrow>
          (if cs \<noteq> [] then ([(of_char c, cs)], False)
           else (case nxt of None \<Rightarrow> ([(63, [])], False) | Some a \<Rightarrow> ([(of_char c, a)], True))))"

definition lookup_long :: "option_t list \<Rightarrow> string \<Rightarrow> option_t option" where
  "lookup_long los nm =
     (case filter (\<lambda>lo. fst lo = nm) los of
        lo # _ \<Rightarrow> Some lo
      | [] \<Rightarrow>
          (case filter (\<lambda>lo. take (length nm) (fst lo) = nm) los of
             [] \<Rightarrow> None
           | lo # others \<Rightarrow> if list_all (\<lambda>lo'. snd lo' = snd lo) others then Some lo else None))"

definition scan_long :: "option_t list \<Rightarrow> string \<Rightarrow> string option \<Rightarrow> (int \<times> string) \<times> bool" where
  "scan_long los body nxt =
     (let nm = takeWhile (\<lambda>c. c \<noteq> CHR ''='') body;
          has_eq = (CHR ''='' \<in> set body);
          val = drop (Suc (length nm)) body
      in case lookup_long los nm of
           None \<Rightarrow> ((63, []), False)
         | Some (_, no_argument, flag, v) \<Rightarrow>
             if has_eq then ((63, []), False) else ((if flag then 0 else v, []), False)
         | Some (_, required_argument, flag, v) \<Rightarrow>
             if has_eq then ((if flag then 0 else v, val), False)
             else (case nxt of
                     None \<Rightarrow> ((63, []), False)
                   | Some a \<Rightarrow> ((if flag then 0 else v, a), True)))"

text \<open>
  The arguments after \<open>argv[0]\<close>: the values returned, the arguments consumed as options
  or option arguments, and the arguments left over, each in their order.
\<close>

function gnu_scan ::
  "string \<Rightarrow> option_t list \<Rightarrow> string list \<Rightarrow> (int \<times> string) list \<times> string list \<times> string list"
where
  "gnu_scan os los [] = ([], [], [])"
| "gnu_scan os los (a # rest) =
     (let nxt = (case rest of [] \<Rightarrow> None | x # _ \<Rightarrow> Some x) in
      if a = ''--'' then ([], [a], rest)
      else if take 2 a = ''--'' then
        (case scan_long los (drop 2 a) nxt of
           (r, used) \<Rightarrow>
             (case gnu_scan os los (if used then drop 1 rest else rest) of
                (rs, cons, non) \<Rightarrow> (r # rs, a # (if used then take 1 rest else []) @ cons, non)))
      else if take 1 a = ''-'' \<and> a \<noteq> ''-'' then
        (case scan_cluster os (drop 1 a) nxt of
           (rs1, used) \<Rightarrow>
             (case gnu_scan os los (if used then drop 1 rest else rest) of
                (rs, cons, non) \<Rightarrow> (rs1 @ rs, a # (if used then take 1 rest else []) @ cons, non)))
      else
        (case gnu_scan os los rest of (rs, cons, non) \<Rightarrow> (rs, cons, a # non)))"
  by pat_completeness auto
termination
  by (relation "measure (\<lambda>(os, los, args). length args)") auto

definition gnu_getopt_long ::
  "string list \<Rightarrow> string \<Rightarrow> option_t list \<Rightarrow> (int \<times> string) list \<times> int \<times> string list" where
  "gnu_getopt_long argv os los =
     (case argv of
        [] \<Rightarrow> ([], 1, [])
      | a0 # args \<Rightarrow>
          (case gnu_scan os los args of
             (rs, cons, non) \<Rightarrow> (rs, 1 + int (length cons), a0 # cons @ non)))"

section \<open>A scripted target\<close>

text \<open>
  An environment on which \<open>main\<close> can be run. The world is a clock, the results that
  the coming calls of \<open>GetStack\<close> will give, the time one such call takes and the pid of
  the one process that exists. A \<open>double\<close> is a rational number, and \<open>stod_decimal\<close>
  stands in for \<open>std::stod\<close> on plain decimal numbers.
\<close>

record target =
  clock :: int
  walks :: "(exc + frames_t) list"
  walk_time :: int
  live_pid :: int

definition stod_decimal :: "string \<Rightarrow> rat option" where
  "stod_decimal s =
     (let ip = takeWhile isdigit s;
          r = dropWhile isdigit s;
          fp = (case r of c # fs \<Rightarrow> if c = CHR ''.'' then takeWhile isdigit fs else [] | [] \<Rightarrow> [])
      in if ip = [] \<and> fp = [] then None
         else Some (of_int (digits_value ip) + of_int (digits_value fp) / 10 ^ length fp))"

definition trunc_micros :: "rat \<Rightarrow> int" where
  "trunc_micros x = (if x < 0 then - \<lfloor>- x * 1000000\<rfloor> else \<lfloor>x * 1000000\<rfloor>)"

definition colon_frame :: "Frame \<Rightarrow> string" where
  "colon_frame f = frame_file f @ '':'' @ frame_name f @ '':'' @ show_nat (frame_line f)"

definition scripted_walk :: "int \<Rightarrow> nat \<Rightarrow> target \<Rightarrow> (exc + frames_t) \<times> target" where
  "scripted_walk pid addr w =
     (case walks w of
        [] \<Rightarrow> (Inl (FatalException ''Failed to PTRACE_PEEKDATA''), w)
      | r # rs \<Rightarrow> (r, w\<lparr>clock := clock w + max 0 (walk_time w), walks := rs\<rparr>))"

definition scripted :: "(target, rat) env" where
  "scripted =
     \<lparr>getopt_long = gnu_getopt_long,
      stod = stod_decimal,
      d_zero = 0,
      d_rate = 1 / 100,
      truthy = (\<lambda>x. x \<noteq> 0),
      micros = trunc_micros,
      PACKAGE_STRING = ''pystack 0.1'',
      PtraceAttach = (\<lambda>pid w. if pid = live_pid w then (Inr (), w)
                               else (Inl (FatalException ''Failed to attach to PID''), w)),
      PtraceDetach = (\<lambda>pid w. (Inr (), w)),
      ThreadStateAddr = (\<lambda>pid w. (Inr 4096, w)),
      GetStack = scripted_walk,
      now = (\<lambda>w. (clock w, w)),
      sleep_for = (\<lambda>i w. w\<lparr>clock := clock w + max 0 i\<rparr>),
      show_frame = colon_frame,
      hash_size_t = of_nat,
      hash_string = (\<lambda>s. of_nat (length s))\<rparr>"

definition frame_A :: Frame where
  "frame_A = \<lparr>frame_file = ''app.py'', frame_name = ''main'', frame_line = 10\<rparr>"

definition frame_B :: Frame where
  "frame_B = \<lparr>frame_file = ''app.py'', frame_name = ''work'', frame_line = 25\<rparr>"

definition frame_C :: Frame where
  "frame_C = \<lparr>frame_file = ''lib.py'', frame_name = ''spin'', frame_line = 7\<rparr>"

text \<open>A target with pid 42 whose clock stands at 0.\<close>

definition target42 :: "(exc + frames_t) list \<Rightarrow> int \<Rightarrow> target" where
  "target42 ws cost = \<lparr>clock = 0, walks = ws, walk_time = cost, live_pid = 42\<rparr>"

section \<open>Notions used in the statements\<close>

subsection \<open>The folded-stack format, as the specification words it\<close>

fun join :: "string \<Rightarrow> string list \<Rightarrow> string" where
  "join sep [] = []"
| "join sep [x] = x"
| "join sep (x # y # ys) = x @ sep @ join sep (y # ys)"

text \<open>
  One line per bucket: the frames outermost first (the stack is stored innermost first),
  joined by semicolons, a single space, the count.
\<close>

definition folded_line :: "('w, 'd) env \<Rightarrow> frames_t \<times> nat \<Rightarrow> string" where
  "folded_line env kv =
     join '';'' (map (show_frame env) (rev (fst kv))) @ '' '' @ show_nat (snd kv) @ endl"

text \<open>The line for the samples without a stack, printed only for a positive count.\<close>

definition null_line :: "nat \<Rightarrow> string" where
  "null_line n = (if 0 < n then ''(null)'' @ '' '' @ show_nat n @ endl else [])"

definition nonempty_key :: "frames_t \<times> nat \<Rightarrow> bool" where
  "nonempty_key kv = (fst kv \<noteq> [])"

subsection \<open>Counting in traces and buckets\<close>

fun is_walk :: "event \<Rightarrow> bool" where
  "is_walk (Walk r) = True"
| "is_walk e = False"

definition attempts :: "event list \<Rightarrow> nat" where
  "attempts tr = length (filter is_walk tr)"

fun is_unusable :: "event \<Rightarrow> bool" where
  "is_unusable (Walk (Inl (NonFatalException m))) = True"
| "is_unusable e = False"

definition unusable :: "event list \<Rightarrow> nat" where
  "unusable tr = length (filter is_unusable tr)"

definition seen :: "frames_t \<Rightarrow> event list \<Rightarrow> nat" where
  "seen k tr = count_list tr (Walk (Inr k))"

definition count_of :: "frames_t \<Rightarrow> buckets_t \<Rightarrow> nat" where
  "count_of k buckets = (case map_of buckets k of None \<Rightarrow> 0 | Some c \<Rightarrow> c)"

definition total :: "buckets_t \<Rightarrow> nat" where
  "total buckets = sum_list (map snd buckets)"

text \<open>
  How one result of \<open>GetStack\<close> changes the accumulators: a stack is counted in its
  bucket, a \<open>NonFatalException\<close> in \<open>empty\<close>; other exceptions change nothing,
  they leave the loop.
\<close>

definition counted ::
  "('w, 'd) env \<Rightarrow> exc + frames_t \<Rightarrow> buckets_t \<Rightarrow> nat \<Rightarrow> buckets_t \<Rightarrow> nat \<Rightarrow> bool" where
  "counted env x buckets n_empty buckets1 n_empty1 =
     (case x of
        Inr frames \<Rightarrow> buckets1 = count_stack env frames buckets \<and> n_empty1 = n_empty
      | Inl (NonFatalException m) \<Rightarrow> buckets1 = buckets \<and> n_empty1 = n_empty + 1
      | Inl e \<Rightarrow> False)"

subsection \<open>A hash of the file names alone\<close>

text \<open>
  The hash as a function of the list of file names, one per position: what the claim
  about \<open>FrameHash\<close> says it computes.
\<close>

definition files_hash :: "('w, 'd) env \<Rightarrow> string list \<Rightarrow> 64 word" where
  "files_hash env files =
     fold (\<lambda>i hash. (hash XOR hash_size_t env i) XOR hash_string env (files ! i))
       [0 ..< length files] 0"

subsection \<open>A clock that does not run backwards\<close>

definition clk :: "('w, 'd) env \<Rightarrow> 'w \<Rightarrow> int" where
  "clk env w = fst (now env w)"

text \<open>
  No call sets the clock back, and \<open>sleep_for\<close> lasts at least the time asked for.
\<close>

definition clock_sane :: "('w, 'd) env \<Rightarrow> bool" where
  "clock_sane env \<longleftrightarrow>
     (\<forall>w. clk env w \<le> clk env (snd (now env w))) \<and>
     (\<forall>pid addr w. clk env w \<le> clk env (snd (GetStack env pid addr w))) \<and>
     (\<forall>pid w. clk env w \<le> clk env (snd (PtraceAttach env pid w))) \<and>
     (\<forall>pid w. clk env w \<le> clk env (snd (PtraceDetach env pid w))) \<and>
     (\<forall>i w. clk env w + i \<le> clk env (sleep_for env i w))"

definition ceil_div :: "int \<Rightarrow> int \<Rightarrow> nat" where
  "ceil_div d i = nat \<lceil>real_of_int d / real_of_int i\<rceil>"

definition floor_div :: "int \<Rightarrow> int \<Rightarrow> nat" where
  "floor_div d i = nat \<lfloor>real_of_int d / real_of_int i\<rfloor>"

subsection \<open>The order of attach and detach calls\<close>

text \<open>
  \<open>alternating att tr\<close>: starting from a target that is attached or not, the trace
  never attaches an attached target nor detaches a detached one.
\<close>

fun alternating :: "bool \<Rightarrow> event list \<Rightarrow> bool" where
  "alternating att [] = True"
| "alternating att (Attach p ok # es) = (\<not> att \<and> alternating ok es)"
| "alternating att (Detach p ok # es) = (att \<and> alternating (\<not> ok) es)"
| "alternating att (e # es) = alternating att es"

text \<open>Whether the target is attached after the trace.\<close>

fun attached_after :: "bool \<Rightarrow> event list \<Rightarrow> bool" where
  "attached_after att [] = att"
| "attached_after att (Attach p ok # es) = attached_after ok es"
| "attached_after att (Detach p ok # es) = attached_after (\<not> ok) es"
| "attached_after att (e # es) = attached_after att es"

fun is_detach :: "event \<Rightarrow> bool" where
  "is_detach (Detach p ok) = True"
| "is_detach e = False"

fun is_failure :: "event \<Rightarrow> bool" where
  "is_failure (Attach p ok) = (\<not> ok)"
| "is_failure (Detach p ok) = (\<not> ok)"
| "is_failure e = False"

text \<open>
  The calls of the sampling loop from its first walk on, for a pid and an interval: every
  pass but the last is a walk, a detach that succeeds, the sleep and an attach that
  succeeds; the last pass is a walk alone (the \<open>break\<close>, or the walk threw), or a walk
  and a detach that fails, or a walk, a detach, the sleep and an attach that fails. A
  detach stands nowhere else.
\<close>

fun loop_trace :: "int \<Rightarrow> int \<Rightarrow> event list \<Rightarrow> bool" where
  "loop_trace pid I [Walk x] = True"
| "loop_trace pid I [Walk x, Detach p ok] = (p = pid \<and> \<not> ok)"
| "loop_trace pid I (Walk x # Detach p ok # Sleep i # Attach q ok' # rest) =
     (p = pid \<and> ok \<and> i = I \<and> q = pid \<and> (if ok' then loop_trace pid I rest else rest = []))"
| "loop_trace pid I tr = False"

text \<open>
  The calls of a whole run: none, or the first attach and, if it succeeds, nothing (the
  thread state was not found) or the calls of the loop; a single-shot run is the loop's
  shortest case, one walk.
\<close>

fun program_trace :: "int \<Rightarrow> int \<Rightarrow> event list \<Rightarrow> bool" where
  "program_trace pid I [] = True"
| "program_trace pid I (Attach p ok # ext) =
     (p = pid \<and> (if ok then ext = [] \<or> loop_trace pid I ext else ext = []))"
| "program_trace pid I tr = False"

subsection \<open>Environments whose process control throws fatal exceptions only\<close>

text \<open>
  The specification gives \<open>Attach\<close> one way to fail, a \<open>FatalError\<close>; this says so of
  \<open>PtraceAttach\<close> and \<open>PtraceDetach\<close>.
\<close>

definition fatal_only :: "('w, 'd) env \<Rightarrow> bool" where
  "fatal_only env \<longleftrightarrow>
     (\<forall>pid w e. fst (PtraceAttach env pid w) = Inl e \<longrightarrow> (\<exists>m. e = FatalException m)) \<and>
     (\<forall>pid w e. fst (PtraceDetach env pid w) = Inl e \<longrightarrow> (\<exists>m. e = FatalException m))"

subsection \<open>Arguments without a digit\<close>

definition no_digit :: "string \<Rightarrow> bool" where
  "no_digit s = list_all (\<lambda>c. \<not> isdigit c) s"

section \<open>Lemmas on the folded-stack output\<close>

lemma join_snoc: "join sep (xs @ [x]) = concat (map (\<lambda>y. y @ sep) xs) @ x"
  by (induction sep xs rule: join.induct) auto

lemma print_bucket_folded: "print_bucket env first rest n = folded_line env (first # rest, n)"
  by (simp add: print_bucket_def folded_line_def join_snoc map_concat comp_def rev_map[symmetric])

lemma print_buckets_all:
  "list_all nonempty_key buckets \<Longrightarrow>
   print_buckets env buckets st = (None, print (concat (map (folded_line env) buckets)) st)"
proof (induction env buckets st rule: print_buckets.induct)
  case (1 env st)
  show ?case by (simp add: print_def)
next
  case (2 env n kvs st)
  then show ?case by (simp add: nonempty_key_def)
next
  case (3 env first rest n kvs st)
  then show ?case by (simp add: print_bucket_folded print_def)
qed

lemma print_buckets_stop:
  "\<not> list_all nonempty_key buckets \<Longrightarrow>
   print_buckets env buckets st =
     (Some 1, eprint (''uh oh'' @ endl)
        (print (concat (map (folded_line env) (takeWhile nonempty_key buckets))) st))"
proof (induction env buckets st rule: print_buckets.induct)
  case (1 env st)
  then show ?case by simp
next
  case (2 env n kvs st)
  show ?case by (simp add: nonempty_key_def print_def)
next
  case (3 env first rest n kvs st)
  then show ?case by (simp add: print_bucket_folded print_def nonempty_key_def eprint_def)
qed

lemma null_line_print:
  "(if n \<noteq> 0 then print (''(null) '' @ show_nat n @ endl) st else st) = print (null_line n) st"
  by (simp add: null_line_def print_def)

lemma print_results_eq:
  "print_results env buckets n_empty st =
     (if list_all nonempty_key buckets then None else Some 1,
      st\<lparr>out := out st @ null_line n_empty
                 @ concat (map (folded_line env) (takeWhile nonempty_key buckets)),
         err := err st @ (if list_all nonempty_key buckets then [] else ''uh oh'' @ endl)\<rparr>)"
proof (cases "list_all nonempty_key buckets")
  case True
  then have tw: "takeWhile nonempty_key buckets = buckets"
    by (simp add: list_all_iff)
  show ?thesis
    unfolding print_results_def null_line_print
    by (simp add: True tw print_buckets_all print_def)
next
  case False
  then show ?thesis
    unfolding print_results_def null_line_print
    by (simp add: print_buckets_stop print_def eprint_def)
qed

subsection \<open>The paths through the \<open>try\<close> block\<close>

lemma try_block_attach_fails:
  "attach env pid st = (Inl e, st1) \<Longrightarrow> try_block fuel env pid s r st = Some (Inl e, st1)"
  by (simp add: try_block_def)

lemma try_block_addr_fails:
  "attach env pid st = (Inr u, st1) \<Longrightarrow> ThreadStateAddr env pid (world st1) = (Inl e, w) \<Longrightarrow>
   try_block fuel env pid s r st = Some (Inl e, st1\<lparr>world := w\<rparr>)"
  by (simp add: try_block_def)

lemma try_block_once:
  "attach env pid st = (Inr u, st1) \<Longrightarrow> ThreadStateAddr env pid (world st1) = (Inr addr, w) \<Longrightarrow>
   \<not> truthy env s \<Longrightarrow>
   try_block fuel env pid s r st =
     (case RunOnce env pid addr (st1\<lparr>world := w\<rparr>) of
        (Inl e, st2) \<Rightarrow> Some (Inl e, st2)
      | (Inr _, st2) \<Rightarrow> Some (Inr 0, st2))"
  by (simp add: try_block_def)

lemma RunOnce_effect:
  assumes "RunOnce env pid addr st = (x, st')"
  shows "trace st' = trace st @ [Walk (fst (GetStack env pid addr (world st)))] \<and>
         err st' = err st \<and>
         (case x of Inl e \<Rightarrow> out st' = out st \<and> fst (GetStack env pid addr (world st)) = Inl e
                  | Inr _ \<Rightarrow> True)"
proof (cases "GetStack env pid addr (world st)")
  case (Pair g w)
  with assms show ?thesis
    by (cases g) (auto simp: RunOnce_def get_stack_def print_def)
qed

lemma try_block_sampling:
  assumes "attach env pid st = (Inr u, st1)"
    and "ThreadStateAddr env pid (world st1) = (Inr addr, w)"
    and "truthy env s"
  shows "try_block fuel env pid s r st =
     (case sampling fuel env pid addr s r (st1\<lparr>world := w\<rparr>) of
        None \<Rightarrow> None
      | Some (Inl e, st2) \<Rightarrow> Some (Inl e, st2)
      | Some (Inr (b, n), st2) \<Rightarrow>
          Some (Inr (case fst (print_results env b n st2) of Some code \<Rightarrow> code | None \<Rightarrow> 0),
                snd (print_results env b n st2)))"
proof (cases "sampling fuel env pid addr s r (st1\<lparr>world := w\<rparr>)")
  case None
  with assms show ?thesis by (simp add: try_block_def)
next
  case (Some x)
  obtain y st2 where x: "x = (y, st2)" by (cases x)
  show ?thesis
  proof (cases y)
    case (Inl e)
    with assms Some x show ?thesis by (simp add: try_block_def)
  next
    case (Inr bn)
    obtain b n where bn: "bn = (b, n)" by (cases bn)
    obtain c st3 where p: "print_results env b n st2 = (c, st3)"
      by (cases "print_results env b n st2")
    with assms Some x Inr bn show ?thesis
      by (cases c) (simp_all add: try_block_def)
  qed
qed

subsection \<open>Running the model on the scripted target\<close>

lemma umap_find_Cons:
  "umap_find env frames ((k, c) # kvs) =
     (if k = frames then Some 0 else map_option Suc (umap_find env frames kvs))"
  by simp

lemma sample_loop_numeral:
  "sample_loop (numeral k) env pid addr interval end_time buckets n_empty st =
     (case loop_body env pid addr interval end_time buckets n_empty st of
        (Thrown e, st1) \<Rightarrow> Some (Inl e, st1)
      | (Break buckets1 n_empty1, st1) \<Rightarrow> Some (Inr (buckets1, n_empty1), st1)
      | (Continue buckets1 n_empty1, st1) \<Rightarrow>
          sample_loop (pred_numeral k) env pid addr interval end_time buckets1 n_empty1 st1)"
  by (simp add: numeral_eq_Suc)

lemmas loop_eval =
  sampling_def loop_body_def capture_def attach_def detach_def
  get_stack_def sleep_def is_ok_def scripted_walk_def trunc_micros_def count_stack_def
  umap_find_Cons sample_loop_numeral

lemmas scripted_eval = run_def try_block_def RunOnce_def print_def eprint_def loop_eval

lemmas scripted_fields =
  scripted_def colon_frame_def frame_A_def frame_B_def frame_C_def target42_def
  init_state_def

lemmas show_eval = show_nat.simps digit_char_def show_int_def endl_def

section \<open>The empty stack at the output loop\<close>

text \<open>
  Claim C4. When a bucket with an empty stack reaches the output loop of lines 146 to
  157, the loop prints the buckets that precede it in iteration order, writes
  \<open>uh oh\<close> to the standard error and returns 1 at line 149: the bucket is neither
  printed nor skipped, and no later bucket is printed. A sampling run of \<open>main\<close> whose
  loop ends with such a bucket map returns exit code 1.
\<close>

theorem empty_stack_is_fatal:
  assumes "\<not> list_all nonempty_key buckets"
  shows "print_results env buckets n_empty st =
           (Some 1,
            st\<lparr>out := out st @ null_line n_empty
                     @ concat (map (folded_line env) (takeWhile nonempty_key buckets)),
               err := err st @ ''uh oh'' @ endl\<rparr>) \<and>
         (attach env pid st0 = (Inr u, st1) \<and>
          ThreadStateAddr env pid (world st1) = (Inr addr, w) \<and>
          truthy env seconds \<and>
          sampling fuel env pid addr seconds sample_rate (st1\<lparr>world := w\<rparr>)
            = Some (Inr (buckets, n_empty), st) \<longrightarrow>
          run fuel env pid seconds sample_rate st0 =
            Some (Return 1, snd (print_results env buckets n_empty st)))"
  using assms by (simp add: print_results_eq run_def try_block_def)

theorem empty_stack_is_fatal_witness:
  "\<not> list_all nonempty_key [([frame_A], 1), ([], 1), ([frame_B], 1)] \<and>
   print_results scripted [([frame_A], 1), ([], 1), ([frame_B], 1)] 0
       (init_state (target42 [] 0)) =
     (Some 1, (init_state (target42 [] 0))
        \<lparr>out := ''app.py:main:10 1'' @ endl, err := ''uh oh'' @ endl\<rparr>) \<and>
   run 3 scripted 42 (1 / 50) (1 / 100)
       (init_state (target42 [Inr [], Inr [frame_A]] 0)) =
     Some (Return 1,
       \<lparr>world = \<lparr>clock = 10000, walks = [], walk_time = 0, live_pid = 42\<rparr>,
        trace = [Attach 42 True, Walk (Inr []), Detach 42 True, Sleep 10000,
                 Attach 42 True, Walk (Inr [frame_A])],
        out = [], err = ''uh oh'' @ endl\<rparr>)"
proof -
  have h: "\<not> list_all nonempty_key [([frame_A], 1), ([], 1), ([frame_B], 1)]"
    by (simp add: nonempty_key_def)
  have h2: "\<not> list_all nonempty_key [([], 1), ([frame_A], 1)]"
    by (simp add: nonempty_key_def)
  have a: "attach scripted 42 (init_state (target42 [Inr [], Inr [frame_A]] 0)) =
             (Inr (), (init_state (target42 [Inr [], Inr [frame_A]] 0))\<lparr>trace := [Attach 42 True]\<rparr>)"
    by (simp add: loop_eval scripted_fields)
  have s: "sampling 3 scripted 42 4096 (1 / 50) (1 / 100)
             ((init_state (target42 [Inr [], Inr [frame_A]] 0))
                \<lparr>trace := [Attach 42 True],
                 world := target42 [Inr [], Inr [frame_A]] 0\<rparr>) =
           Some (Inr ([([], 1), ([frame_A], 1)], 0),
             \<lparr>world = \<lparr>clock = 10000, walks = [], walk_time = 0, live_pid = 42\<rparr>,
              trace = [Attach 42 True, Walk (Inr []), Detach 42 True, Sleep 10000,
                       Attach 42 True, Walk (Inr [frame_A])],
              out = [], err = []\<rparr>)"
    by (simp add: loop_eval scripted_fields del: umap_find.simps(2))
  show ?thesis
    using h
      empty_stack_is_fatal [OF h, of scripted 0 "init_state (target42 [] 0)"]
      empty_stack_is_fatal [OF h2, of scripted 0 _ 42
        "init_state (target42 [Inr [], Inr [frame_A]] 0)" "()"
        "(init_state (target42 [Inr [], Inr [frame_A]] 0))\<lparr>trace := [Attach 42 True]\<rparr>"
        4096 "target42 [Inr [], Inr [frame_A]] 0" "1 / 50" 3 "1 / 100"]
      a s
    by (simp add: null_line_def folded_line_def nonempty_key_def scripted_fields show_eval)
qed

section \<open>One pass of the sampling loop\<close>

lemma capture_shape:
  assumes "capture env pid addr b n st = (r, st')"
  shows "\<exists>x. trace st' = trace st @ [Walk x] \<and>
           (case r of Inl e \<Rightarrow> x = Inl e \<and> (\<forall>m. e \<noteq> NonFatalException m)
                    | Inr (b1, n1) \<Rightarrow> counted env x b n b1 n1)"
proof (cases "GetStack env pid addr (world st)")
  case (Pair g w)
  show ?thesis
  proof (cases g)
    case (Inl e)
    with Pair assms show ?thesis
      by (cases e) (auto simp: capture_def get_stack_def counted_def)
  next
    case (Inr frames)
    with Pair assms show ?thesis
      by (auto simp: capture_def get_stack_def counted_def)
  qed
qed

lemma loop_body_shape:
  assumes "loop_body env pid addr I E b n st = (p, st')"
  shows "\<exists>x. (\<exists>e. p = Thrown e \<and> x = Inl e \<and> (\<forall>m. e \<noteq> NonFatalException m) \<and>
                 trace st' = trace st @ [Walk x]) \<or>
              (\<exists>b1 n1. p = Break b1 n1 \<and> counted env x b n b1 n1 \<and>
                 trace st' = trace st @ [Walk x]) \<or>
              (\<exists>e. p = Thrown e \<and> trace st' = trace st @ [Walk x, Detach pid False]) \<or>
              (\<exists>e. p = Thrown e \<and>
                 trace st' = trace st @ [Walk x, Detach pid True, Sleep I, Attach pid False]) \<or>
              (\<exists>b1 n1. p = Continue b1 n1 \<and> counted env x b n b1 n1 \<and>
                 trace st' = trace st @ [Walk x, Detach pid True, Sleep I, Attach pid True])"
proof -
  obtain r st1 where c: "capture env pid addr b n st = (r, st1)"
    by (cases "capture env pid addr b n st")
  from capture_shape [OF c] obtain x where
    tr1: "trace st1 = trace st @ [Walk x]" and
    r: "case r of Inl e \<Rightarrow> x = Inl e \<and> (\<forall>m. e \<noteq> NonFatalException m)
                | Inr (b1, n1) \<Rightarrow> counted env x b n b1 n1"
    by blast
  show ?thesis
  proof (cases r)
    case (Inl e)
    with assms c r tr1 show ?thesis
      by (auto simp: loop_body_def)
  next
    case (Inr bn)
    obtain b1 n1 where bn: "bn = (b1, n1)" by (cases bn)
    from r Inr bn have cnt: "counted env x b n b1 n1" by simp
    from assms c Inr bn have
      "(p, st') = (case now env (world st1) of
             (t, w) \<Rightarrow>
               if t + I \<ge> E then (Break b1 n1, st1\<lparr>world := w\<rparr>)
               else
                 (case detach env pid (st1\<lparr>world := w\<rparr>) of
                    (Inl e, st2) \<Rightarrow> (Thrown e, st2)
                  | (Inr _, st2) \<Rightarrow>
                      (case attach env pid (sleep env I st2) of
                         (Inl e, st3) \<Rightarrow> (Thrown e, st3)
                       | (Inr _, st3) \<Rightarrow> (Continue b1 n1, st3))))"
      by (simp add: loop_body_def)
    with cnt tr1 show ?thesis
      by (auto simp: detach_def attach_def sleep_def is_ok_def
          split: prod.splits sum.splits if_splits intro!: exI [of _ x])
  qed
qed

lemma loop_body_output:
  "loop_body env pid addr I E b n st = (p, st') \<Longrightarrow> out st' = out st \<and> err st' = err st"
  by (auto simp: loop_body_def capture_def get_stack_def detach_def attach_def sleep_def
      split: prod.splits sum.splits exc.splits if_splits)


lemma loop_body_Break:
  assumes "loop_body env pid addr I E b n st = (Break b1 n1, st')"
  shows "\<exists>x. counted env x b n b1 n1 \<and> trace st' = trace st @ [Walk x]"
  using loop_body_shape [OF assms] by auto

lemma loop_body_Continue:
  assumes "loop_body env pid addr I E b n st = (Continue b1 n1, st')"
  shows "\<exists>x. counted env x b n b1 n1 \<and>
           trace st' = trace st @ [Walk x, Detach pid True, Sleep I, Attach pid True]"
  using loop_body_shape [OF assms] by auto

lemma loop_body_Thrown:
  assumes "loop_body env pid addr I E b n st = (Thrown e, st')"
  shows "\<exists>x. trace st' = trace st @ [Walk x] \<or>
           trace st' = trace st @ [Walk x, Detach pid False] \<or>
           trace st' = trace st @ [Walk x, Detach pid True, Sleep I, Attach pid False]"
  using loop_body_shape [OF assms] by auto

subsection \<open>The bucket map counts\<close>

lemma count_stack_Nil: "count_stack env f [] = [(f, 1)]"
  by (simp add: count_stack_def)

lemma count_stack_Cons:
  "count_stack env f ((k, c) # kvs) =
     (if k = f then (k, c + 1) # kvs else (k, c) # count_stack env f kvs)"
  by (cases "umap_find env f kvs") (simp_all add: count_stack_def)

lemma total_count_stack: "total (count_stack env f b) = Suc (total b)"
  by (induction b) (auto simp: count_stack_Nil count_stack_Cons total_def)

lemma count_of_count_stack:
  "count_of k (count_stack env f b) = (if k = f then Suc (count_of k b) else count_of k b)"
  by (induction b) (auto simp: count_stack_Nil count_stack_Cons count_of_def)

lemma counted_total:
  "counted env x b n b1 n1 \<Longrightarrow> n1 + total b1 = Suc (n + total b)"
  by (auto simp: counted_def total_count_stack split: sum.splits exc.splits)

lemma counted_count_of:
  "counted env x b n b1 n1 \<Longrightarrow>
     count_of k b1 = count_of k b + (if x = Inr k then 1 else 0)"
  by (auto simp: counted_def count_of_count_stack split: sum.splits exc.splits)

lemma counted_unusable:
  "counted env x b n b1 n1 \<Longrightarrow> n1 = n + (if is_unusable (Walk x) then 1 else 0)"
  by (auto simp: counted_def split: sum.splits exc.splits)

lemma sample_loop_accounts:
  "sample_loop fuel env pid addr I E b n st = Some (Inr (b', n'), st') \<Longrightarrow>
     attempts (trace st') + (n + total b) = attempts (trace st) + (n' + total b')"
proof (induction fuel arbitrary: b n st)
  case 0
  then show ?case by simp
next
  case (Suc fuel)
  obtain p st1 where body: "loop_body env pid addr I E b n st = (p, st1)"
    by (cases "loop_body env pid addr I E b n st")
  show ?case
  proof (cases p)
    case (Thrown e)
    with Suc.prems body show ?thesis by simp
  next
    case (Break b1 n1)
    with Suc.prems body have "b' = b1" "n' = n1" "st' = st1" by simp_all
    with loop_body_Break [OF body [unfolded Break]] show ?thesis
      by (auto simp: attempts_def dest: counted_total)
  next
    case (Continue b1 n1)
    with Suc.prems body have
      rest: "sample_loop fuel env pid addr I E b1 n1 st1 = Some (Inr (b', n'), st')"
      by simp
    from loop_body_Continue [OF body [unfolded Continue]] obtain x where
      "counted env x b n b1 n1" and
      "trace st1 = trace st @ [Walk x, Detach pid True, Sleep I, Attach pid True]"
      by blast
    with Suc.IH [OF rest] show ?thesis
      by (auto simp: attempts_def dest: counted_total)
  qed
qed

lemma sample_loop_counts:
  "sample_loop fuel env pid addr I E b n st = Some (Inr (b', n'), st') \<Longrightarrow>
     seen k (trace st') + count_of k b = seen k (trace st) + count_of k b' \<and>
     unusable (trace st') + n = unusable (trace st) + n'"
proof (induction fuel arbitrary: b n st)
  case 0
  then show ?case by simp
next
  case (Suc fuel)
  obtain p st1 where body: "loop_body env pid addr I E b n st = (p, st1)"
    by (cases "loop_body env pid addr I E b n st")
  show ?case
  proof (cases p)
    case (Thrown e)
    with Suc.prems body show ?thesis by simp
  next
    case (Break b1 n1)
    with Suc.prems body have eq: "b' = b1" "n' = n1" "st' = st1" by simp_all
    from loop_body_Break [OF body [unfolded Break]] obtain x where
      c: "counted env x b n b1 n1" and "trace st1 = trace st @ [Walk x]"
      by blast
    with eq counted_count_of [OF c, of k] counted_unusable [OF c] show ?thesis
      by (auto simp: seen_def unusable_def split: if_splits)
  next
    case (Continue b1 n1)
    with Suc.prems body have
      rest: "sample_loop fuel env pid addr I E b1 n1 st1 = Some (Inr (b', n'), st')"
      by simp
    from loop_body_Continue [OF body [unfolded Continue]] obtain x where
      c: "counted env x b n b1 n1" and
      "trace st1 = trace st @ [Walk x, Detach pid True, Sleep I, Attach pid True]"
      by blast
    with Suc.IH [OF rest] counted_count_of [OF c, of k] counted_unusable [OF c]
    show ?thesis
      by (auto simp: seen_def unusable_def split: if_splits)
  qed
qed

lemma sample_loop_attempts_pos:
  "sample_loop fuel env pid addr I E b n st = Some (r, st') \<Longrightarrow>
     attempts (trace st) < attempts (trace st')"
proof (induction fuel arbitrary: b n st)
  case 0
  then show ?case by simp
next
  case (Suc fuel)
  obtain p st1 where body: "loop_body env pid addr I E b n st = (p, st1)"
    by (cases "loop_body env pid addr I E b n st")
  show ?case
  proof (cases p)
    case (Thrown e)
    with Suc.prems body have "st' = st1" by simp
    with loop_body_Thrown [OF body [unfolded Thrown]] show ?thesis
      by (auto simp: attempts_def)
  next
    case (Break b1 n1)
    with Suc.prems body have "st' = st1" by simp
    with loop_body_Break [OF body [unfolded Break]] show ?thesis
      by (auto simp: attempts_def)
  next
    case (Continue b1 n1)
    with Suc.prems body have
      rest: "sample_loop fuel env pid addr I E b1 n1 st1 = Some (r, st')"
      by simp
    from loop_body_Continue [OF body [unfolded Continue]] Suc.IH [OF rest]
    show ?thesis
      by (auto simp: attempts_def)
  qed
qed


lemma count_stack_keys:
  "set (map fst (count_stack env f b)) = insert f (set (map fst b))"
proof (induction b)
  case Nil
  show ?case by (simp add: count_stack_Nil)
next
  case (Cons kv b)
  obtain k c where kv: "kv = (k, c)" by (cases kv)
  show ?case
  proof (cases "k = f")
    case True
    with kv show ?thesis by (simp add: count_stack_Cons)
  next
    case False
    with kv Cons.IH show ?thesis by (simp add: count_stack_Cons insert_commute)
  qed
qed

lemma counted_keys:
  assumes "counted env x b n b1 n1"
  shows "set (map fst b1) \<subseteq> set (map fst b) \<union> {k. x = Inr k}"
proof (cases x)
  case (Inl e)
  with assms show ?thesis by (cases e) (simp_all add: counted_def)
next
  case (Inr f)
  with assms have "b1 = count_stack env f b" by (simp add: counted_def)
  with Inr count_stack_keys [of env f b] show ?thesis by auto
qed

lemma sample_loop_keys:
  "sample_loop fuel env pid addr I E b n st = Some (Inr (b', n'), st') \<Longrightarrow>
     \<exists>tr. trace st' = trace st @ tr \<and>
       set (map fst b') \<subseteq> set (map fst b) \<union> {k. Walk (Inr k) \<in> set tr}"
proof (induction fuel arbitrary: b n st)
  case 0
  then show ?case by simp
next
  case (Suc fuel)
  obtain p st1 where body: "loop_body env pid addr I E b n st = (p, st1)"
    by (cases "loop_body env pid addr I E b n st")
  show ?case
  proof (cases p)
    case (Thrown e)
    with Suc.prems body show ?thesis by simp
  next
    case (Break b1 n1)
    with Suc.prems body have eq: "b' = b1" "n' = n1" "st' = st1" by simp_all
    from loop_body_Break [OF body [unfolded Break]] obtain x where
      c: "counted env x b n b1 n1" and t: "trace st1 = trace st @ [Walk x]"
      by blast
    have "{k. x = Inr k} \<subseteq> {k. Walk (Inr k) \<in> set [Walk x]}"
      by auto
    with counted_keys [OF c] have
      "set (map fst b1) \<subseteq> set (map fst b) \<union> {k. Walk (Inr k) \<in> set [Walk x]}"
      by blast
    with eq t show ?thesis by blast
  next
    case (Continue b1 n1)
    with Suc.prems body have
      rest: "sample_loop fuel env pid addr I E b1 n1 st1 = Some (Inr (b', n'), st')"
      by simp
    from loop_body_Continue [OF body [unfolded Continue]] obtain x where
      c: "counted env x b n b1 n1" and
      t: "trace st1 = trace st @ [Walk x, Detach pid True, Sleep I, Attach pid True]"
      by blast
    from Suc.IH [OF rest] obtain tr where
      t': "trace st' = trace st1 @ tr" and
      k: "set (map fst b') \<subseteq> set (map fst b1) \<union> {k. Walk (Inr k) \<in> set tr}"
      by blast
    let ?tr = "[Walk x, Detach pid True, Sleep I, Attach pid True] @ tr"
    have "{k. x = Inr k} \<subseteq> {k. Walk (Inr k) \<in> set ?tr}"
      and "{k. Walk (Inr k) \<in> set tr} \<subseteq> {k. Walk (Inr k) \<in> set ?tr}"
      by auto
    with counted_keys [OF c] k have
      "set (map fst b') \<subseteq> set (map fst b) \<union> {k. Walk (Inr k) \<in> set ?tr}"
      by blast
    moreover from t t' have "trace st' = trace st @ ?tr"
      by simp
    ultimately show ?thesis by blast
  qed
qed

lemma sampling_keys:
  assumes "sampling fuel env pid addr seconds sample_rate st2 = Some (Inr (b, n), st)"
    and "Walk (Inr []) \<notin> set (trace st)"
  shows "list_all nonempty_key b"
proof -
  obtain t w where "now env (world st2) = (t, w)"
    by (cases "now env (world st2)")
  with assms(1) have "sample_loop fuel env pid addr (micros env sample_rate)
      (t + micros env seconds) [] 0 (st2\<lparr>world := w\<rparr>) = Some (Inr (b, n), st)"
    by (simp add: sampling_def)
  from sample_loop_keys [OF this] obtain tr where
    "trace st = trace st2 @ tr" and "set (map fst b) \<subseteq> {k. Walk (Inr k) \<in> set tr}"
    by auto
  with assms(2) have "[] \<notin> set (map fst b)"
    by auto
  then show ?thesis
    by (induction b) (auto simp: nonempty_key_def)
qed


subsection \<open>The clock bounds the number of passes\<close>

lemma loop_body_clock:
  assumes sane: "clock_sane env"
    and body: "loop_body env pid addr I E b n st = (Continue b1 n1, st')"
  shows "clk env (world st) + I < E \<and> clk env (world st) + I \<le> clk env (world st')"
proof -
  obtain g w1 where G: "GetStack env pid addr (world st) = (g, w1)"
    by (cases "GetStack env pid addr (world st)")
  obtain t w2 where N: "now env w1 = (t, w2)"
    by (cases "now env w1")
  obtain d w3 where D: "PtraceDetach env pid w2 = (d, w3)"
    by (cases "PtraceDetach env pid w2")
  obtain a w5 where A: "PtraceAttach env pid (sleep_for env I w3) = (a, w5)"
    by (cases "PtraceAttach env pid (sleep_for env I w3)")
  from body G N D A have early: "\<not> E \<le> t + I" and w: "world st' = w5"
    by (auto simp: loop_body_def capture_def get_stack_def detach_def attach_def sleep_def
        split: sum.splits exc.splits if_splits)
  from sane G have 1: "clk env (world st) \<le> clk env w1"
    unfolding clock_sane_def by (metis snd_conv)
  from N have 2: "clk env w1 = t"
    by (simp add: clk_def)
  from sane N have 3: "clk env w1 \<le> clk env w2"
    unfolding clock_sane_def by (metis snd_conv)
  from sane D have 4: "clk env w2 \<le> clk env w3"
    unfolding clock_sane_def by (metis snd_conv)
  from sane have 5: "clk env w3 + I \<le> clk env (sleep_for env I w3)"
    unfolding clock_sane_def by blast
  from sane A have 6: "clk env (sleep_for env I w3) \<le> clk env w5"
    unfolding clock_sane_def by (metis snd_conv)
  from early 1 2 3 4 5 6 w show ?thesis by simp
qed

lemma sample_loop_bounded:
  assumes sane: "clock_sane env"
  shows "E \<le> clk env (world st) + int m * I \<Longrightarrow> 0 < m \<Longrightarrow> m \<le> fuel \<Longrightarrow>
         \<exists>r st'. sample_loop fuel env pid addr I E b n st = Some (r, st') \<and>
                 attempts (trace st') \<le> attempts (trace st) + m"
proof (induction m arbitrary: fuel st b n)
  case 0
  then show ?case by simp
next
  case (Suc m)
  from Suc.prems obtain f where fuel: "fuel = Suc f" and f: "m \<le> f"
    by (cases fuel) auto
  obtain p st1 where body: "loop_body env pid addr I E b n st = (p, st1)"
    by (cases "loop_body env pid addr I E b n st")
  show ?case
  proof (cases p)
    case (Thrown e)
    with loop_body_Thrown [OF body [unfolded Thrown]] body fuel show ?thesis
      by (auto simp: attempts_def)
  next
    case (Break b1 n1)
    with loop_body_Break [OF body [unfolded Break]] body fuel show ?thesis
      by (auto simp: attempts_def)
  next
    case (Continue b1 n1)
    from loop_body_clock [OF sane body [unfolded Continue]] have
      lt: "clk env (world st) + I < E" and le: "clk env (world st) + I \<le> clk env (world st1)"
      by simp_all
    from Suc.prems(1) have "E \<le> (clk env (world st) + I) + int m * I"
      by (simp add: algebra_simps)
    with le have E: "E \<le> clk env (world st1) + int m * I"
      by linarith
    from lt Suc.prems(1) have m: "0 < m"
      by (cases m) auto
    from Suc.IH [OF E m f, of b1 n1] obtain r st' where
      rest: "sample_loop f env pid addr I E b1 n1 st1 = Some (r, st')" and
      att: "attempts (trace st') \<le> attempts (trace st1) + m"
      by blast
    from loop_body_Continue [OF body [unfolded Continue]] have
      "attempts (trace st1) = Suc (attempts (trace st))"
      by (auto simp: attempts_def)
    with rest att body Continue fuel show ?thesis
      by simp
  qed
qed

lemma sample_loop_more_fuel:
  "sample_loop fuel env pid addr I E b n st = Some r \<Longrightarrow> fuel \<le> fuel' \<Longrightarrow>
   sample_loop fuel' env pid addr I E b n st = Some r"
proof (induction fuel arbitrary: fuel' b n st)
  case 0
  then show ?case by simp
next
  case (Suc fuel)
  from Suc.prems obtain f' where f': "fuel' = Suc f'" and le: "fuel \<le> f'"
    by (cases fuel') auto
  obtain p st1 where body: "loop_body env pid addr I E b n st = (p, st1)"
    by (cases "loop_body env pid addr I E b n st")
  show ?case
  proof (cases p)
    case (Continue b1 n1)
    with Suc.prems body have "sample_loop fuel env pid addr I E b1 n1 st1 = Some r"
      by simp
    from Suc.IH [OF this le] body Continue f' show ?thesis
      by simp
  qed (use Suc.prems body f' in auto)
qed

lemma ceil_div_covers:
  assumes "0 < d" "0 < i"
  shows "0 < ceil_div d i \<and> d \<le> int (ceil_div d i) * i"
proof -
  from assms have pos: "0 < real_of_int d / real_of_int i"
    by simp
  then have c: "0 < \<lceil>real_of_int d / real_of_int i\<rceil>"
    by linarith
  from assms have i: "0 < real_of_int i"
    by simp
  have "real_of_int d \<le> real_of_int \<lceil>real_of_int d / real_of_int i\<rceil> * real_of_int i"
    by (rule pos_divide_le_eq [OF i, THEN iffD1]) (rule le_of_int_ceiling)
  then have "d \<le> \<lceil>real_of_int d / real_of_int i\<rceil> * i"
    by (metis of_int_le_iff of_int_mult)
  with c show ?thesis
    by (simp add: ceil_div_def)
qed


section \<open>The folded-stack output of a sampling run\<close>

text \<open>
  Claim C1, as the code has it. At the end of a sampling run, lines 142 to 157 add to the
  standard output first the line \<open>(null)\<close>, a space and the count of samples without a
  stack, only if that count is positive, and then, for the buckets in iteration order as far
  as the first bucket whose stack is empty, one line each: the frames outermost first
  joined by semicolons, one space, the count of the bucket. When no bucket has an empty
  stack, as is the case whenever no walk of the run returned an empty stack, these are
  all the buckets, no early return is taken, and \<open>main\<close> returns 0 with just that
  output. At a bucket with an empty stack the loop stops, as the guard of line 147 has
  it: that bucket and the buckets after it get no line, and \<open>main\<close> returns 1.
\<close>

theorem folded_output_format:
  "print_results env buckets n_empty st =
     (if list_all nonempty_key buckets then None else Some 1,
      st\<lparr>out := out st @ null_line n_empty
                 @ concat (map (folded_line env) (takeWhile nonempty_key buckets)),
         err := err st @ (if list_all nonempty_key buckets then [] else ''uh oh'' @ endl)\<rparr>) \<and>
   (list_all nonempty_key buckets \<longrightarrow> takeWhile nonempty_key buckets = buckets) \<and>
   (sampling fuel env pid addr seconds sample_rate st2 = Some (Inr (buckets, n_empty), st) \<and>
    Walk (Inr []) \<notin> set (trace st) \<longrightarrow> list_all nonempty_key buckets) \<and>
   (attach env pid st0 = (Inr u, st1) \<and>
    ThreadStateAddr env pid (world st1) = (Inr addr, w) \<and>
    truthy env seconds \<and>
    sampling fuel env pid addr seconds sample_rate (st1\<lparr>world := w\<rparr>)
      = Some (Inr (buckets, n_empty), st) \<longrightarrow>
    run fuel env pid seconds sample_rate st0 =
      Some (Return (if list_all nonempty_key buckets then 0 else 1),
        st\<lparr>out := out st @ null_line n_empty
                  @ concat (map (folded_line env) (takeWhile nonempty_key buckets)),
          err := err st @ (if list_all nonempty_key buckets then [] else ''uh oh'' @ endl)\<rparr>))"
proof (intro conjI impI)
  show p: "print_results env buckets n_empty st =
     (if list_all nonempty_key buckets then None else Some 1,
      st\<lparr>out := out st @ null_line n_empty
                 @ concat (map (folded_line env) (takeWhile nonempty_key buckets)),
         err := err st @ (if list_all nonempty_key buckets then [] else ''uh oh'' @ endl)\<rparr>)"
    by (rule print_results_eq)
  show "takeWhile nonempty_key buckets = buckets" if "list_all nonempty_key buckets"
    using that by (simp add: list_all_iff)
  show "list_all nonempty_key buckets"
    if "sampling fuel env pid addr seconds sample_rate st2 = Some (Inr (buckets, n_empty), st) \<and>
      Walk (Inr []) \<notin> set (trace st)"
    using that sampling_keys [of fuel env pid addr seconds sample_rate st2 buckets n_empty st]
    by simp
  assume "attach env pid st0 = (Inr u, st1) \<and>
    ThreadStateAddr env pid (world st1) = (Inr addr, w) \<and>
    truthy env seconds \<and>
    sampling fuel env pid addr seconds sample_rate (st1\<lparr>world := w\<rparr>)
      = Some (Inr (buckets, n_empty), st)"
  then have h: "attach env pid st0 = (Inr u, st1)"
    "ThreadStateAddr env pid (world st1) = (Inr addr, w)" "truthy env seconds"
    and s: "sampling fuel env pid addr seconds sample_rate (st1\<lparr>world := w\<rparr>)
      = Some (Inr (buckets, n_empty), st)"
    by simp_all
  from try_block_sampling [OF h, of fuel sample_rate] s p
  show "run fuel env pid seconds sample_rate st0 =
      Some (Return (if list_all nonempty_key buckets then 0 else 1),
        st\<lparr>out := out st @ null_line n_empty
                  @ concat (map (folded_line env) (takeWhile nonempty_key buckets)),
          err := err st @ (if list_all nonempty_key buckets then [] else ''uh oh'' @ endl)\<rparr>)"
    by (simp add: run_def)
qed

theorem folded_output_format_witness:
  "list_all nonempty_key [([frame_C, frame_B, frame_A], 2), ([frame_B, frame_A], 1)] \<and>
   print_results scripted [([frame_C, frame_B, frame_A], 2), ([frame_B, frame_A], 1)] 1
       (init_state (target42 [] 0)) =
     (None, (init_state (target42 [] 0))
        \<lparr>out := ''(null) 1'' @ endl
                @ ''app.py:main:10;app.py:work:25;lib.py:spin:7 2'' @ endl
                @ ''app.py:main:10;app.py:work:25 1'' @ endl\<rparr>) \<and>
   run 4 scripted 42 (1 / 25) (1 / 100)
       (init_state (target42 [Inr [frame_C, frame_B, frame_A],
          Inl (NonFatalException ''gone''), Inr [frame_B, frame_A],
          Inr [frame_C, frame_B, frame_A]] 0)) =
     Some (Return 0,
       \<lparr>world = \<lparr>clock = 30000, walks = [], walk_time = 0, live_pid = 42\<rparr>,
        trace = [Attach 42 True, Walk (Inr [frame_C, frame_B, frame_A]),
                 Detach 42 True, Sleep 10000, Attach 42 True,
                 Walk (Inl (NonFatalException ''gone'')),
                 Detach 42 True, Sleep 10000, Attach 42 True,
                 Walk (Inr [frame_B, frame_A]),
                 Detach 42 True, Sleep 10000, Attach 42 True,
                 Walk (Inr [frame_C, frame_B, frame_A])],
        out = ''(null) 1'' @ endl
                @ ''app.py:main:10;app.py:work:25;lib.py:spin:7 2'' @ endl
                @ ''app.py:main:10;app.py:work:25 1'' @ endl,
        err = []\<rparr>)"
proof -
  let ?b = "[([frame_C, frame_B, frame_A], 2), ([frame_B, frame_A], 1)]"
  let ?w = "target42 [Inr [frame_C, frame_B, frame_A],
          Inl (NonFatalException ''gone''), Inr [frame_B, frame_A],
          Inr [frame_C, frame_B, frame_A]] 0"
  let ?st = "\<lparr>world = \<lparr>clock = 30000, walks = [], walk_time = 0, live_pid = 42\<rparr>,
        trace = [Attach 42 True, Walk (Inr [frame_C, frame_B, frame_A]),
                 Detach 42 True, Sleep 10000, Attach 42 True,
                 Walk (Inl (NonFatalException ''gone'')),
                 Detach 42 True, Sleep 10000, Attach 42 True,
                 Walk (Inr [frame_B, frame_A]),
                 Detach 42 True, Sleep 10000, Attach 42 True,
                 Walk (Inr [frame_C, frame_B, frame_A])],
        out = [], err = []\<rparr>"
  have a: "attach scripted 42 (init_state ?w) = (Inr (), (init_state ?w)\<lparr>trace := [Attach 42 True]\<rparr>)"
    by (simp add: loop_eval scripted_fields)
  have t: "ThreadStateAddr scripted 42 (world ((init_state ?w)\<lparr>trace := [Attach 42 True]\<rparr>))
             = (Inr 4096, ?w)"
    "truthy scripted (1 / 25)"
    by (simp_all add: scripted_fields)
  have s: "sampling 4 scripted 42 4096 (1 / 25) (1 / 100)
             ((init_state ?w)\<lparr>trace := [Attach 42 True]\<rparr>\<lparr>world := ?w\<rparr>)
           = Some (Inr (?b, 1), ?st)"
    by (simp add: loop_eval scripted_fields del: umap_find.simps(2))
  note i0 = folded_output_format [of scripted ?b 1 ?st 4 42 4096 "1 / 25" "1 / 100"
      "(init_state ?w)\<lparr>trace := [Attach 42 True]\<rparr>\<lparr>world := ?w\<rparr>"]
  from i0 [THEN conjunct2, THEN conjunct2, THEN conjunct1] s
  have h: "list_all nonempty_key ?b"
    by simp
  note i1 = folded_output_format [of scripted ?b 1 "init_state (target42 [] 0)"]
  from i1 [THEN conjunct1] i1 [THEN conjunct2, THEN conjunct1] h
  have 1: "print_results scripted ?b 1 (init_state (target42 [] 0)) =
     (None, (init_state (target42 [] 0))
        \<lparr>out := ''(null) 1'' @ endl
                @ ''app.py:main:10;app.py:work:25;lib.py:spin:7 2'' @ endl
                @ ''app.py:main:10;app.py:work:25 1'' @ endl\<rparr>)"
    by (simp add: null_line_def folded_line_def scripted_fields show_eval)
  note i2 = folded_output_format [of scripted ?b 1 ?st 4 42 4096 "1 / 25" "1 / 100"
      "(init_state ?w)\<lparr>trace := [Attach 42 True]\<rparr>\<lparr>world := ?w\<rparr>" "init_state ?w" "()"
      "(init_state ?w)\<lparr>trace := [Attach 42 True]\<rparr>" ?w]
  from i2 [THEN conjunct2, THEN conjunct2, THEN conjunct2] i2 [THEN conjunct2, THEN conjunct1]
    h a t s
  have 2: "run 4 scripted 42 (1 / 25) (1 / 100) (init_state ?w) =
     Some (Return 0, ?st\<lparr>out := ''(null) 1'' @ endl
                @ ''app.py:main:10;app.py:work:25;lib.py:spin:7 2'' @ endl
                @ ''app.py:main:10;app.py:work:25 1'' @ endl\<rparr>)"
    by (simp add: null_line_def folded_line_def scripted_fields show_eval)
  from h 1 2 show ?thesis
    by simp
qed

theorem empty_bucket_counterexample:
  "print_results scripted [([frame_A], 1), ([], 1), ([frame_B, frame_A], 1)] 0
       (init_state (target42 [] 0)) =
     (Some 1, (init_state (target42 [] 0))
        \<lparr>out := ''app.py:main:10 1'' @ endl, err := ''uh oh'' @ endl\<rparr>) \<and>
   main 3 scripted [''pystack'', ''-s'', ''0.03'', ''42'']
       (target42 [Inr [frame_A], Inr [], Inr [frame_B, frame_A]] 0) =
     Some (Return 1,
       \<lparr>world = \<lparr>clock = 20000, walks = [], walk_time = 0, live_pid = 42\<rparr>,
        trace = [Attach 42 True, Walk (Inr [frame_A]), Detach 42 True, Sleep 10000,
                 Attach 42 True, Walk (Inr []), Detach 42 True, Sleep 10000,
                 Attach 42 True, Walk (Inr [frame_B, frame_A])],
        out = ''app.py:main:10 1'' @ endl, err = ''uh oh'' @ endl\<rparr>)"
proof -
  have 1: "print_results scripted [([frame_A], 1), ([], 1), ([frame_B, frame_A], 1)] 0
       (init_state (target42 [] 0)) =
     (Some 1, (init_state (target42 [] 0))
        \<lparr>out := ''app.py:main:10 1'' @ endl, err := ''uh oh'' @ endl\<rparr>)"
    by (simp add: print_results_def print_bucket_def print_def eprint_def scripted_fields
        show_eval)
  have 2: "main 3 scripted [''pystack'', ''-s'', ''0.03'', ''42'']
       (target42 [Inr [frame_A], Inr [], Inr [frame_B, frame_A]] 0) =
     Some (Return 1,
       \<lparr>world = \<lparr>clock = 20000, walks = [], walk_time = 0, live_pid = 42\<rparr>,
        trace = [Attach 42 True, Walk (Inr [frame_A]), Detach 42 True, Sleep 10000,
                 Attach 42 True, Walk (Inr []), Detach 42 True, Sleep 10000,
                 Attach 42 True, Walk (Inr [frame_B, frame_A])],
        out = ''app.py:main:10 1'' @ endl, err = ''uh oh'' @ endl\<rparr>)"
    by (simp add: main_def gnu_getopt_long_def scan_long_def lookup_long_def optstring_def
        long_options_def stod_decimal_def isdigit_def digits_value_def digit_value_def
        strtol_def isspace_def LONG_MAX_def LONG_MIN_def PID_MAX_def PID_MIN_def
        scripted_eval scripted_fields print_results_def print_bucket_def show_eval
        del: umap_find.simps(2))
  from 1 2 show ?thesis
    by simp
qed

section \<open>Attempts, buckets and the clock\<close>

lemma sampling_unfold:
  "sampling fuel env pid addr seconds sample_rate st =
     sample_loop fuel env pid addr (micros env sample_rate)
       (fst (now env (world st)) + micros env seconds) [] 0
       (st\<lparr>world := snd (now env (world st))\<rparr>)"
  by (simp add: sampling_def split: prod.splits)

lemma count_of_Nil: "count_of k [] = 0"
  by (simp add: count_of_def)

lemma total_Nil: "total [] = 0"
  by (simp add: total_def)

lemma scripted_clock_sane: "clock_sane scripted"
  by (auto simp: clock_sane_def clk_def scripted_def scripted_walk_def split: list.splits)

text \<open>
  Claim C2, as the code has it. Every sampling run that completes has made at least one
  capture attempt, and the count of samples without a stack plus the sum of all bucket
  counts equals the number of attempts. If the clock never runs backwards and every
  sleep lasts at least the interval, then for a duration \<open>D\<close> and an interval \<open>I\<close>, both
  positive numbers of microseconds, the loop ends within \<open>ceil(D/I)\<close> passes and the run
  makes at most \<open>ceil(D/I)\<close> attempts. There is no lower bound other than one attempt:
  the loop ends by the wall clock, so slow walks or long sleeps shorten the run.
\<close>

theorem sampling_attempts:
  "(sampling fuel env pid addr seconds sample_rate st = Some (Inr (buckets, n_empty), st') \<longrightarrow>
      attempts (trace st') = attempts (trace st) + (n_empty + total buckets) \<and>
      attempts (trace st) < attempts (trace st')) \<and>
   (clock_sane env \<and> 0 < micros env seconds \<and> 0 < micros env sample_rate \<and>
    ceil_div (micros env seconds) (micros env sample_rate) \<le> fuel \<longrightarrow>
      sampling fuel env pid addr seconds sample_rate st \<noteq> None) \<and>
   (clock_sane env \<and> 0 < micros env seconds \<and> 0 < micros env sample_rate \<and>
    sampling fuel env pid addr seconds sample_rate st = Some (r, st2) \<longrightarrow>
      attempts (trace st2)
        \<le> attempts (trace st) + ceil_div (micros env seconds) (micros env sample_rate))"
proof (intro conjI impI)
  assume run: "sampling fuel env pid addr seconds sample_rate st = Some (Inr (buckets, n_empty), st')"
  from sample_loop_accounts [OF run [unfolded sampling_unfold]]
  show "attempts (trace st') = attempts (trace st) + (n_empty + total buckets)"
    by (simp add: total_Nil)
  from sample_loop_attempts_pos [OF run [unfolded sampling_unfold]]
  show "attempts (trace st) < attempts (trace st')"
    by simp
next
  let ?D = "micros env seconds" and ?I = "micros env sample_rate"
  let ?st0 = "st\<lparr>world := snd (now env (world st))\<rparr>"
  let ?E = "fst (now env (world st)) + ?D"
  {
    assume sane: "clock_sane env" and D: "0 < ?D" and I: "0 < ?I"
    from ceil_div_covers [OF D I] have m: "0 < ceil_div ?D ?I" and
      cover: "?D \<le> int (ceil_div ?D ?I) * ?I"
      by simp_all
    from sane have "fst (now env (world st)) \<le> clk env (snd (now env (world st)))"
      unfolding clock_sane_def clk_def by blast
    with cover have E: "?E \<le> clk env (world ?st0) + int (ceil_div ?D ?I) * ?I"
      by simp
    have "\<And>f. ceil_div ?D ?I \<le> f \<Longrightarrow>
            \<exists>r st'. sample_loop f env pid addr ?I ?E [] 0 ?st0 = Some (r, st') \<and>
                    attempts (trace st') \<le> attempts (trace st) + ceil_div ?D ?I"
      using sample_loop_bounded [OF sane E m, of _ pid addr "[]" 0] by simp
  }
  note bounded = this
  {
    assume "clock_sane env \<and> 0 < ?D \<and> 0 < ?I \<and> ceil_div ?D ?I \<le> fuel"
    with bounded [of fuel] show "sampling fuel env pid addr seconds sample_rate st \<noteq> None"
      by (auto simp: sampling_unfold)
  }
  {
    assume a: "clock_sane env \<and> 0 < ?D \<and> 0 < ?I \<and>
               sampling fuel env pid addr seconds sample_rate st = Some (r, st2)"
    let ?f = "max fuel (ceil_div ?D ?I)"
    from a have "sample_loop fuel env pid addr ?I ?E [] 0 ?st0 = Some (r, st2)"
      by (simp add: sampling_unfold)
    from sample_loop_more_fuel [OF this, of ?f] have
      "sample_loop ?f env pid addr ?I ?E [] 0 ?st0 = Some (r, st2)"
      by simp
    with a bounded [of ?f]
    show "attempts (trace st2) \<le> attempts (trace st) + ceil_div ?D ?I"
      by auto
  }
qed


lemmas count_eval = attempts_def total_def ceil_div_def floor_div_def unusable_def seen_def
  count_of_def

theorem sampling_attempts_witness:
  "clock_sane scripted \<and> 0 < micros scripted (1 / 20) \<and> 0 < micros scripted (1 / 100) \<and>
   ceil_div (micros scripted (1 / 20)) (micros scripted (1 / 100)) = 5 \<and>
   sampling 5 scripted 42 4096 (1 / 20) (1 / 100)
       (init_state (target42 [Inr [frame_A], Inl (NonFatalException ''gone''),
          Inr [frame_B, frame_A], Inr [frame_A], Inr [frame_A], Inr [frame_A]] 0)) =
     Some (Inr ([([frame_A], 3), ([frame_B, frame_A], 1)], 1),
       \<lparr>world = \<lparr>clock = 40000, walks = [Inr [frame_A]], walk_time = 0, live_pid = 42\<rparr>,
        trace = [Walk (Inr [frame_A]), Detach 42 True, Sleep 10000, Attach 42 True,
                 Walk (Inl (NonFatalException ''gone'')), Detach 42 True, Sleep 10000,
                 Attach 42 True,
                 Walk (Inr [frame_B, frame_A]), Detach 42 True, Sleep 10000, Attach 42 True,
                 Walk (Inr [frame_A]), Detach 42 True, Sleep 10000, Attach 42 True,
                 Walk (Inr [frame_A])],
        out = [], err = []\<rparr>) \<and>
   attempts [Walk (Inr [frame_A]), Detach 42 True, Sleep 10000, Attach 42 True,
             Walk (Inl (NonFatalException ''gone'')), Detach 42 True, Sleep 10000,
             Attach 42 True,
             Walk (Inr [frame_B, frame_A]), Detach 42 True, Sleep 10000, Attach 42 True,
             Walk (Inr [frame_A]), Detach 42 True, Sleep 10000, Attach 42 True,
             Walk (Inr [frame_A])] = 1 + total [([frame_A], 3), ([frame_B, frame_A], 1)]"
proof -
  let ?st = "init_state (target42 [Inr [frame_A], Inl (NonFatalException ''gone''),
          Inr [frame_B, frame_A], Inr [frame_A], Inr [frame_A], Inr [frame_A]] 0)"
  have D: "micros scripted (1 / 20) = 50000" and I: "micros scripted (1 / 100) = 10000"
    by (simp_all add: scripted_def trunc_micros_def)
  have c: "ceil_div 50000 10000 = 5"
    by (simp add: ceil_div_def)
  have s: "sampling 5 scripted 42 4096 (1 / 20) (1 / 100) ?st =
     Some (Inr ([([frame_A], 3), ([frame_B, frame_A], 1)], 1),
       \<lparr>world = \<lparr>clock = 40000, walks = [Inr [frame_A]], walk_time = 0, live_pid = 42\<rparr>,
        trace = [Walk (Inr [frame_A]), Detach 42 True, Sleep 10000, Attach 42 True,
                 Walk (Inl (NonFatalException ''gone'')), Detach 42 True, Sleep 10000,
                 Attach 42 True,
                 Walk (Inr [frame_B, frame_A]), Detach 42 True, Sleep 10000, Attach 42 True,
                 Walk (Inr [frame_A]), Detach 42 True, Sleep 10000, Attach 42 True,
                 Walk (Inr [frame_A])],
        out = [], err = []\<rparr>)"
    by (simp add: loop_eval scripted_fields del: umap_find.simps(2))
  show ?thesis
    using sampling_attempts [of 5 scripted 42 4096 "1 / 20" "1 / 100" ?st
        "[([frame_A], 3), ([frame_B, frame_A], 1)]" 1 _ _ _]
      scripted_clock_sane D I c s
    by (simp add: init_state_def attempts_def total_def)
qed

theorem slow_walk_counterexample:
  "clock_sane scripted \<and>
   sampling 5 scripted 42 4096 (1 / 20) (1 / 100)
       (init_state (target42 [Inr [frame_A], Inr [frame_A]] 50000)) =
     Some (Inr ([([frame_A], 1)], 0),
       \<lparr>world = \<lparr>clock = 50000, walks = [Inr [frame_A]], walk_time = 50000, live_pid = 42\<rparr>,
        trace = [Walk (Inr [frame_A])], out = [], err = []\<rparr>) \<and>
   attempts [Walk (Inr [frame_A])] = 1 \<and>
   floor_div (micros scripted (1 / 20)) (micros scripted (1 / 100)) = 5"
  using scripted_clock_sane
  by (simp add: loop_eval scripted_fields count_eval scripted_def del: umap_find.simps(2))

section \<open>Where an empty stack goes\<close>

text \<open>
  Claim C3, at the input where the code departs from it. The inner \<open>try\<close> of lines 123
  to 133 tests nothing about the vector that \<open>GetStack\<close> returns; only a
  \<open>NonFatalException\<close> reaches \<open>empty++\<close>. So when a walk returns an empty stack, the
  sampling loop makes it a key of the bucket map with count 1 and the count of samples
  without a stack stays 0: the run of \<open>main\<close> then prints no \<open>(null)\<close> line, meets
  its own guard of line 147, writes \<open>uh oh\<close> and returns 1. (No bucket line is printed
  for the empty stack; that part of the claim holds.)
\<close>

theorem empty_walk_is_bucketed:
  "sampling 1 scripted 42 4096 (1 / 100) (1 / 100) (init_state (target42 [Inr []] 0)) =
     Some (Inr ([([], 1)], 0),
       \<lparr>world = \<lparr>clock = 0, walks = [], walk_time = 0, live_pid = 42\<rparr>,
        trace = [Walk (Inr [])], out = [], err = []\<rparr>) \<and>
   main 1 scripted [''pystack'', ''-s'', ''0.01'', ''42''] (target42 [Inr []] 0) =
     Some (Return 1,
       \<lparr>world = \<lparr>clock = 0, walks = [], walk_time = 0, live_pid = 42\<rparr>,
        trace = [Attach 42 True, Walk (Inr [])], out = [], err = ''uh oh'' @ endl\<rparr>)"
proof -
  have 1: "sampling 1 scripted 42 4096 (1 / 100) (1 / 100) (init_state (target42 [Inr []] 0)) =
     Some (Inr ([([], 1)], 0),
       \<lparr>world = \<lparr>clock = 0, walks = [], walk_time = 0, live_pid = 42\<rparr>,
        trace = [Walk (Inr [])], out = [], err = []\<rparr>)"
    by (simp add: sampling_def loop_body_def capture_def get_stack_def scripted_walk_def
        trunc_micros_def count_stack_def scripted_fields)
  have 2: "main 1 scripted [''pystack'', ''-s'', ''0.01'', ''42''] (target42 [Inr []] 0) =
     Some (Return 1,
       \<lparr>world = \<lparr>clock = 0, walks = [], walk_time = 0, live_pid = 42\<rparr>,
        trace = [Attach 42 True, Walk (Inr [])], out = [], err = ''uh oh'' @ endl\<rparr>)"
    by (simp add: main_def gnu_getopt_long_def scan_long_def lookup_long_def optstring_def
        long_options_def stod_decimal_def isdigit_def digits_value_def digit_value_def
        strtol_def isspace_def LONG_MAX_def LONG_MIN_def PID_MAX_def PID_MIN_def
        scripted_eval scripted_fields print_results_def show_eval
        del: umap_find.simps(2))
  from 1 2 show ?thesis
    by simp
qed

section \<open>The order of attach and detach\<close>

lemma alternating_append:
  "alternating att (xs @ ys) = (alternating att xs \<and> alternating (attached_after att xs) ys)"
  by (induction att xs rule: alternating.induct) auto

lemma attached_after_append:
  "attached_after att (xs @ ys) = attached_after (attached_after att xs) ys"
  by (induction att xs rule: attached_after.induct) auto

lemma sample_loop_trace:
  "sample_loop fuel env pid addr I E b n st = Some (r, st') \<Longrightarrow>
     \<exists>ext. trace st' = trace st @ ext \<and> alternating True ext \<and>
           (list_all (\<lambda>e. \<not> is_failure e) ext \<longrightarrow> attached_after True ext)"
proof (induction fuel arbitrary: b n st)
  case 0
  then show ?case by simp
next
  case (Suc fuel)
  obtain p st1 where body: "loop_body env pid addr I E b n st = (p, st1)"
    by (cases "loop_body env pid addr I E b n st")
  show ?case
  proof (cases p)
    case (Thrown e)
    with Suc.prems body have "st' = st1" by simp
    with loop_body_Thrown [OF body [unfolded Thrown]] show ?thesis
      by auto
  next
    case (Break b1 n1)
    with Suc.prems body have "st' = st1" by simp
    with loop_body_Break [OF body [unfolded Break]] show ?thesis
      by auto
  next
    case (Continue b1 n1)
    with Suc.prems body have
      rest: "sample_loop fuel env pid addr I E b1 n1 st1 = Some (r, st')"
      by simp
    from loop_body_Continue [OF body [unfolded Continue]] obtain x where
      tr1: "trace st1 = trace st @ [Walk x, Detach pid True, Sleep I, Attach pid True]"
      by blast
    from Suc.IH [OF rest] obtain ext where
      ext: "trace st' = trace st1 @ ext" "alternating True ext"
        "list_all (\<lambda>e. \<not> is_failure e) ext \<longrightarrow> attached_after True ext"
      by blast
    let ?ext = "[Walk x, Detach pid True, Sleep I, Attach pid True] @ ext"
    from tr1 ext have "trace st' = trace st @ ?ext"
      by simp
    moreover from ext have "alternating True ?ext"
      by simp
    moreover from ext have "list_all (\<lambda>e. \<not> is_failure e) ?ext \<longrightarrow> attached_after True ?ext"
      by simp
    ultimately show ?thesis
      by blast
  qed
qed

lemma sample_loop_output:
  "sample_loop fuel env pid addr I E b n st = Some (r, st') \<Longrightarrow>
     out st' = out st \<and> err st' = err st"
proof (induction fuel arbitrary: b n st)
  case 0
  then show ?case by simp
next
  case (Suc fuel)
  obtain p st1 where body: "loop_body env pid addr I E b n st = (p, st1)"
    by (cases "loop_body env pid addr I E b n st")
  from loop_body_output [OF body] Suc.prems body Suc.IH [of _ _ st1]
  show ?case
    by (cases p) auto
qed

lemma print_results_trace: "trace (snd (print_results env b n st)) = trace st"
  by (simp add: print_results_eq)

text \<open>The trace of the \<open>try\<close> block: the first attach and what follows it.\<close>

lemma try_block_trace:
  assumes "try_block fuel env pid s r st = Some (res, st')"
  shows "\<exists>ok ext. trace st' = trace st @ Attach pid ok # ext \<and> alternating ok ext \<and>
           (\<not> ok \<longrightarrow> ext = []) \<and>
           (ok \<and> list_all (\<lambda>e. \<not> is_failure e) ext \<longrightarrow> attached_after True ext) \<and>
           (\<not> truthy env s \<longrightarrow> list_all (\<lambda>e. \<not> is_detach e) ext)"
proof -
  obtain a st1 where A: "attach env pid st = (a, st1)"
    by (cases "attach env pid st")
  then have tr1: "trace st1 = trace st @ [Attach pid (is_ok a)]"
    by (auto simp: attach_def split: prod.splits)
  show ?thesis
  proof (cases a)
    case (Inl e)
    with assms A tr1 try_block_attach_fails [of env pid st e st1 fuel s r] show ?thesis
      by (auto simp: is_ok_def)
  next
    case (Inr u)
    then have ok: "is_ok a" by (simp add: is_ok_def)
    obtain t w where T: "ThreadStateAddr env pid (world st1) = (t, w)"
      by (cases "ThreadStateAddr env pid (world st1)")
    show ?thesis
    proof (cases t)
      case (Inl e)
      with assms A Inr T tr1 ok try_block_addr_fails [of env pid st u st1 e w fuel s r]
      show ?thesis
        by auto
    next
      case addr: (Inr addr)
      show ?thesis
      proof (cases "truthy env s")
        case True
        with assms A Inr T addr try_block_sampling [of env pid st u st1 addr w s fuel r]
        have tb:
          "(case sampling fuel env pid addr s r (st1\<lparr>world := w\<rparr>) of
              None \<Rightarrow> None
            | Some (Inl e, st2) \<Rightarrow> Some (Inl e, st2)
            | Some (Inr (b, n), st2) \<Rightarrow>
                Some (Inr (case fst (print_results env b n st2) of Some code \<Rightarrow> code | None \<Rightarrow> 0),
                      snd (print_results env b n st2))) = Some (res, st')"
          by simp
        then obtain x st2 where
          S: "sampling fuel env pid addr s r (st1\<lparr>world := w\<rparr>) = Some (x, st2)"
          by (cases "sampling fuel env pid addr s r (st1\<lparr>world := w\<rparr>)") auto
        with tb have tr': "trace st' = trace st2"
          by (cases x) (auto simp: print_results_trace)
        from sample_loop_trace [OF S [unfolded sampling_unfold]] obtain ext where
          "trace st2 = trace st1 @ ext" "alternating True ext"
          "list_all (\<lambda>e. \<not> is_failure e) ext \<longrightarrow> attached_after True ext"
          by auto
        with tr' tr1 ok True show ?thesis
          by auto
      next
        case False
        obtain x st2 where R: "RunOnce env pid addr (st1\<lparr>world := w\<rparr>) = (x, st2)"
          by (cases "RunOnce env pid addr (st1\<lparr>world := w\<rparr>)")
        with assms try_block_once [OF A [unfolded Inr] T [unfolded addr] False, of fuel r]
        have "st' = st2"
          by (cases x) auto
        with RunOnce_effect [OF R] tr1 ok False show ?thesis
          by auto
      qed
    qed
  qed
qed

lemma run_trace:
  assumes "run fuel env pid s r st = Some (oc, st')"
  shows "\<exists>res st1. try_block fuel env pid s r st = Some (res, st1) \<and> trace st' = trace st1"
  using assms
  by (auto simp: run_def eprint_def split: option.splits sum.splits exc.splits prod.splits)


lemma parse_options_exit:
  "parse_options env rets s r st = Inl (oc, st') \<Longrightarrow>
     trace st' = trace st \<and> err st' = err st \<and> world st' = world st"
  by (induction env rets s r st rule: parse_options.induct)
    (auto simp: print_def split: if_splits option.splits)

lemma main_cases:
  assumes "main fuel env argv w = Some (oc, st)"
  shows "trace st = [] \<or>
         (\<exists>pid s r. run fuel env pid s r (init_state w) = Some (oc, st) \<and>
            PID_MIN \<le> pid \<and> pid \<le> PID_MAX)"
proof -
  obtain rets optind argv1 where g:
    "getopt_long env argv optstring long_options = (rets, optind, argv1)"
    by (cases "getopt_long env argv optstring long_options")
  show ?thesis
  proof (cases "parse_options env rets (d_zero env) (d_rate env) (init_state w)")
    case (Inl x)
    with assms g have "parse_options env rets (d_zero env) (d_rate env) (init_state w)
        = Inl (oc, st)"
      by (simp add: main_def)
    from parse_options_exit [OF this] show ?thesis
      by (simp add: init_state_def)
  next
    case (Inr sr)
    obtain s r where sr: "sr = (s, r)" by (cases sr)
    let ?pid = "strtol (argv1 ! nat (int (length argv) - 1))"
    from assms g Inr sr have
      "trace st = [] \<or>
       (run fuel env ?pid s r (init_state w) = Some (oc, st) \<and>
        PID_MIN \<le> ?pid \<and> ?pid \<le> PID_MAX)"
      by (auto simp: main_def Let_def eprint_def init_state_def split: if_splits)
    then show ?thesis
      by blast
  qed
qed

subsection \<open>The calls of a run, in full\<close>

lemma counted_not_fatal: "counted env x b n b1 n1 \<Longrightarrow> x \<noteq> Inl (FatalException m)"
  by (auto simp: counted_def)

lemma loop_body_Thrown_origin:
  assumes "loop_body env pid addr I E b n st = (Thrown e, st')"
  shows "(trace st' = trace st @ [Walk (Inl e)] \<and> (\<forall>m. e \<noteq> NonFatalException m)) \<or>
         (\<exists>x b1 n1 w. counted env x b n b1 n1 \<and> fst (PtraceDetach env pid w) = Inl e \<and>
            trace st' = trace st @ [Walk x, Detach pid False]) \<or>
         (\<exists>x b1 n1 w. counted env x b n b1 n1 \<and> fst (PtraceAttach env pid w) = Inl e \<and>
            trace st' = trace st @ [Walk x, Detach pid True, Sleep I, Attach pid False])"
proof -
  obtain r st1 where c: "capture env pid addr b n st = (r, st1)"
    by (cases "capture env pid addr b n st")
  from capture_shape [OF c] obtain x where
    tr1: "trace st1 = trace st @ [Walk x]" and
    r: "case r of Inl e \<Rightarrow> x = Inl e \<and> (\<forall>m. e \<noteq> NonFatalException m)
                | Inr (b1, n1) \<Rightarrow> counted env x b n b1 n1"
    by blast
  show ?thesis
  proof (cases r)
    case (Inl e')
    with assms c r tr1 show ?thesis
      by (auto simp: loop_body_def)
  next
    case (Inr bn)
    obtain b1 n1 where bn: "bn = (b1, n1)" by (cases bn)
    from r Inr bn have cnt: "counted env x b n b1 n1" by simp
    obtain t w where N: "now env (world st1) = (t, w)"
      by (cases "now env (world st1)")
    obtain d w3 where D: "PtraceDetach env pid w = (d, w3)"
      by (cases "PtraceDetach env pid w")
    obtain a w5 where A: "PtraceAttach env pid (sleep_for env I w3) = (a, w5)"
      by (cases "PtraceAttach env pid (sleep_for env I w3)")
    from assms c Inr bn N D A have
      "(d = Inl e \<and> trace st' = trace st1 @ [Detach pid False]) \<or>
       (a = Inl e \<and> trace st' = trace st1 @ [Detach pid True, Sleep I, Attach pid False])"
      by (auto simp: loop_body_def detach_def attach_def sleep_def is_ok_def
          split: sum.splits if_splits)
    with cnt tr1 D A show ?thesis
      by (metis append.assoc append_Cons append_Nil fst_conv)
  qed
qed

text \<open>What a completed loop has added to the trace, and which exception it ends with.\<close>

lemma sample_loop_calls:
  "sample_loop fuel env pid addr I E b n st = Some (r, st') \<Longrightarrow>
     \<exists>ext. trace st' = trace st @ ext \<and> loop_trace pid I ext \<and>
       (\<forall>m. Walk (Inl (FatalException m)) \<in> set ext \<longrightarrow> r = Inl (FatalException m)) \<and>
       ((\<exists>ev \<in> set ext. is_failure ev) \<longrightarrow>
          (\<exists>e p w. r = Inl e \<and>
             (fst (PtraceDetach env p w) = Inl e \<or> fst (PtraceAttach env p w) = Inl e)))"
proof (induction fuel arbitrary: b n st)
  case 0
  then show ?case by simp
next
  case (Suc fuel)
  obtain p st1 where body: "loop_body env pid addr I E b n st = (p, st1)"
    by (cases "loop_body env pid addr I E b n st")
  show ?case
  proof (cases p)
    case (Thrown e)
    with Suc.prems body have eq: "st' = st1" "r = Inl e" by simp_all
    from loop_body_Thrown_origin [OF body [unfolded Thrown]] show ?thesis
    proof (elim disjE exE conjE)
      assume "trace st1 = trace st @ [Walk (Inl e)]"
      with eq show ?thesis by auto
    next
      fix x b1 n1 w
      assume "counted env x b n b1 n1" "fst (PtraceDetach env pid w) = Inl e"
        "trace st1 = trace st @ [Walk x, Detach pid False]"
      with eq counted_not_fatal [of env x b n b1 n1] show ?thesis
        by (intro exI [of _ "[Walk x, Detach pid False]"]) auto
    next
      fix x b1 n1 w
      assume "counted env x b n b1 n1" "fst (PtraceAttach env pid w) = Inl e"
        "trace st1 = trace st @ [Walk x, Detach pid True, Sleep I, Attach pid False]"
      with eq counted_not_fatal [of env x b n b1 n1] show ?thesis
        by (intro exI [of _ "[Walk x, Detach pid True, Sleep I, Attach pid False]"]) auto
    qed
  next
    case (Break b1 n1)
    with Suc.prems body have eq: "st' = st1" by simp
    from loop_body_Break [OF body [unfolded Break]] obtain x where
      "counted env x b n b1 n1" "trace st1 = trace st @ [Walk x]"
      by blast
    with eq counted_not_fatal [of env x b n b1 n1] show ?thesis
      by (intro exI [of _ "[Walk x]"]) auto
  next
    case (Continue b1 n1)
    with Suc.prems body have
      rest: "sample_loop fuel env pid addr I E b1 n1 st1 = Some (r, st')"
      by simp
    from loop_body_Continue [OF body [unfolded Continue]] obtain x where
      c: "counted env x b n b1 n1" and
      tr1: "trace st1 = trace st @ [Walk x, Detach pid True, Sleep I, Attach pid True]"
      by blast
    from Suc.IH [OF rest] obtain ext where
      ext: "trace st' = trace st1 @ ext" "loop_trace pid I ext"
        "\<forall>m. Walk (Inl (FatalException m)) \<in> set ext \<longrightarrow> r = Inl (FatalException m)"
        "(\<exists>ev \<in> set ext. is_failure ev) \<longrightarrow>
          (\<exists>e p w. r = Inl e \<and>
             (fst (PtraceDetach env p w) = Inl e \<or> fst (PtraceAttach env p w) = Inl e))"
      by blast
    let ?ext = "Walk x # Detach pid True # Sleep I # Attach pid True # ext"
    from tr1 ext(1) have "trace st' = trace st @ ?ext"
      by simp
    moreover from ext(2) have "loop_trace pid I ?ext"
      by simp
    moreover from ext(3) counted_not_fatal [OF c] have
      "\<forall>m. Walk (Inl (FatalException m)) \<in> set ?ext \<longrightarrow> r = Inl (FatalException m)"
      by auto
    moreover from ext(4) have "(\<exists>ev \<in> set ?ext. is_failure ev) \<longrightarrow>
          (\<exists>e p w. r = Inl e \<and>
             (fst (PtraceDetach env p w) = Inl e \<or> fst (PtraceAttach env p w) = Inl e))"
      by auto
    ultimately show ?thesis
      by blast
  qed
qed


lemma RunOnce_result:
  assumes "RunOnce env pid addr st = (x, st')"
  shows "case fst (GetStack env pid addr (world st)) of Inl e \<Rightarrow> x = Inl e | Inr f \<Rightarrow> x = Inr ()"
proof (cases "GetStack env pid addr (world st)")
  case (Pair g w)
  with assms show ?thesis
    by (cases g) (auto simp: RunOnce_def get_stack_def)
qed

text \<open>The calls of the \<open>try\<close> block and the exception it ends with.\<close>

lemma try_block_calls:
  assumes "try_block fuel env pid s r st = Some (res, st')"
  shows "\<exists>ok ext. trace st' = trace st @ Attach pid ok # ext \<and>
           (if ok then ext = [] \<or> loop_trace pid (micros env r) ext
            else ext = [] \<and> (\<exists>e. res = Inl e \<and> fst (PtraceAttach env pid (world st)) = Inl e)) \<and>
           (\<forall>m. Walk (Inl (FatalException m)) \<in> set ext \<longrightarrow> res = Inl (FatalException m)) \<and>
           ((\<exists>ev \<in> set ext. is_failure ev) \<longrightarrow>
              (\<exists>e p w. res = Inl e \<and>
                 (fst (PtraceDetach env p w) = Inl e \<or> fst (PtraceAttach env p w) = Inl e))) \<and>
           (\<not> truthy env s \<longrightarrow> list_all (\<lambda>e. \<not> is_detach e) ext)"
proof -
  obtain a st1 where A: "attach env pid st = (a, st1)"
    by (cases "attach env pid st")
  then have tr1: "trace st1 = trace st @ [Attach pid (is_ok a)]"
    and pa: "fst (PtraceAttach env pid (world st)) = a"
    by (auto simp: attach_def split: prod.splits)
  show ?thesis
  proof (cases a)
    case (Inl e)
    with assms A tr1 pa try_block_attach_fails [of env pid st e st1 fuel s r] show ?thesis
      by (intro exI [of _ False] exI [of _ "[]"]) (auto simp: is_ok_def)
  next
    case (Inr u)
    then have ok: "is_ok a" by (simp add: is_ok_def)
    obtain t w where T: "ThreadStateAddr env pid (world st1) = (t, w)"
      by (cases "ThreadStateAddr env pid (world st1)")
    show ?thesis
    proof (cases t)
      case (Inl e)
      with assms A Inr T tr1 ok try_block_addr_fails [of env pid st u st1 e w fuel s r]
      show ?thesis
        by (intro exI [of _ True] exI [of _ "[]"]) auto
    next
      case addr: (Inr addr)
      show ?thesis
      proof (cases "truthy env s")
        case True
        from assms try_block_sampling [OF A [unfolded Inr] T [unfolded addr] True, of fuel r]
        have tb:
          "(case sampling fuel env pid addr s r (st1\<lparr>world := w\<rparr>) of
              None \<Rightarrow> None
            | Some (Inl e, st2) \<Rightarrow> Some (Inl e, st2)
            | Some (Inr (b, n), st2) \<Rightarrow>
                Some (Inr (case fst (print_results env b n st2) of Some code \<Rightarrow> code | None \<Rightarrow> 0),
                      snd (print_results env b n st2))) = Some (res, st')"
          by simp
        then obtain x st2 where
          S: "sampling fuel env pid addr s r (st1\<lparr>world := w\<rparr>) = Some (x, st2)"
          by (cases "sampling fuel env pid addr s r (st1\<lparr>world := w\<rparr>)") auto
        with tb have tr': "trace st' = trace st2" and res: "\<And>e. x = Inl e \<Longrightarrow> res = Inl e"
          by (cases x; auto simp: print_results_trace)+
        from sample_loop_calls [OF S [unfolded sampling_unfold]] obtain ext where
          ext: "trace st2 = trace st1 @ ext" "loop_trace pid (micros env r) ext"
            "\<forall>m. Walk (Inl (FatalException m)) \<in> set ext \<longrightarrow> x = Inl (FatalException m)"
            "(\<exists>ev \<in> set ext. is_failure ev) \<longrightarrow>
              (\<exists>e p w. x = Inl e \<and>
                 (fst (PtraceDetach env p w) = Inl e \<or> fst (PtraceAttach env p w) = Inl e))"
          by auto
        from ext(3) res have f: "\<forall>m. Walk (Inl (FatalException m)) \<in> set ext \<longrightarrow> res = Inl (FatalException m)"
          by blast
        from ext(4) res have g: "(\<exists>ev \<in> set ext. is_failure ev) \<longrightarrow>
              (\<exists>e p w. res = Inl e \<and>
                 (fst (PtraceDetach env p w) = Inl e \<or> fst (PtraceAttach env p w) = Inl e))"
          by blast
        from tr' tr1 ok True ext(1,2) f g show ?thesis
          by (intro exI [of _ True] exI [of _ ext]) simp
      next
        case False
        obtain x st2 where R: "RunOnce env pid addr (st1\<lparr>world := w\<rparr>) = (x, st2)"
          by (cases "RunOnce env pid addr (st1\<lparr>world := w\<rparr>)")
        with assms try_block_once [OF A [unfolded Inr] T [unfolded addr] False, of fuel r]
        have eq: "st' = st2" and res: "\<And>e. x = Inl e \<Longrightarrow> res = Inl e"
          by (cases x; auto)+
        let ?g = "fst (GetStack env pid addr (world (st1\<lparr>world := w\<rparr>)))"
        from RunOnce_effect [OF R] have tr2: "trace st2 = trace st1 @ [Walk ?g]"
          by simp
        from RunOnce_result [OF R] res have
          f: "\<forall>m. ?g = Inl (FatalException m) \<longrightarrow> res = Inl (FatalException m)"
          by (cases ?g) auto
        from eq tr2 tr1 ok False f show ?thesis
          by (intro exI [of _ True] exI [of _ "[Walk ?g]"]) simp
      qed
    qed
  qed
qed

lemma main_run:
  assumes "main fuel env argv w = Some (oc, st)"
    and "getopt_long env argv optstring long_options = (rets, optind, argv1)"
    and "parse_options env rets (d_zero env) (d_rate env) (init_state w)
           = Inr (seconds, sample_rate)"
  shows "trace st = [] \<or>
         run fuel env (strtol (argv1 ! nat (int (length argv) - 1))) seconds sample_rate
           (init_state w) = Some (oc, st)"
  using assms
  by (auto simp: main_def Let_def eprint_def init_state_def split: if_splits)

lemma run_calls:
  assumes "run fuel env pid s r (init_state w) = Some (oc, st)"
  shows "program_trace pid (micros env r) (trace st) \<and>
         (\<not> truthy env s \<longrightarrow> list_all (\<lambda>e. \<not> is_detach e) (trace st))"
proof -
  from run_trace [OF assms] obtain res st1 where
    tb: "try_block fuel env pid s r (init_state w) = Some (res, st1)" and
    tr: "trace st = trace st1"
    by blast
  from try_block_calls [OF tb] obtain ok ext where
    "trace st1 = Attach pid ok # ext"
    "if ok then ext = [] \<or> loop_trace pid (micros env r) ext else ext = [] \<and>
       (\<exists>e. res = Inl e \<and> fst (PtraceAttach env pid (world (init_state w))) = Inl e)"
    "\<not> truthy env s \<longrightarrow> list_all (\<lambda>e. \<not> is_detach e) ext"
    by (auto simp: init_state_def)
  with tr show ?thesis
    by (auto split: if_splits)
qed

text \<open>
  Claim C5, as the code has it. On every path through \<open>main\<close> the attach and detach
  calls alternate, beginning with an attach: the target is never attached twice in a
  row nor detached twice in a row. But \<open>main\<close> has no detach before it exits: the only
  detach is the one of line 138, which follows a walk of the sampling loop, comes before
  the sleep, and has an attach after that sleep; a single-shot run has no detach at all.
  So whenever \<open>main\<close> has called \<open>PtraceAttach\<close> and no call has failed, it exits with the
  target attached: the last successful attach is followed by no detach. The calls of a
  run are, in full: the first attach; then, pass by pass, a walk, a detach, the sleep and
  an attach; and a last pass that ends after its walk, or at a call that fails.
\<close>

theorem attach_detach_order:
  assumes "main fuel env argv w = Some (oc, st)"
  shows "alternating False (trace st) \<and>
         (trace st = [] \<or> (\<exists>pid ok ext. trace st = Attach pid ok # ext)) \<and>
         (trace st \<noteq> [] \<and> list_all (\<lambda>e. \<not> is_failure e) (trace st)
            \<longrightarrow> attached_after False (trace st)) \<and>
         (\<exists>pid I. program_trace pid I (trace st)) \<and>
         (getopt_long env argv optstring long_options = (rets, optind, argv1) \<and>
          parse_options env rets (d_zero env) (d_rate env) (init_state w)
            = Inr (seconds, sample_rate) \<longrightarrow>
            program_trace (strtol (argv1 ! nat (int (length argv) - 1)))
              (micros env sample_rate) (trace st) \<and>
            (\<not> truthy env seconds \<longrightarrow> list_all (\<lambda>e. \<not> is_detach e) (trace st)))"
proof (cases "trace st = []")
  case True
  then show ?thesis by simp
next
  case False
  with main_cases [OF assms] obtain pid s r where
    r: "run fuel env pid s r (init_state w) = Some (oc, st)"
    by blast
  from run_trace [OF r] obtain res st1 where
    tb: "try_block fuel env pid s r (init_state w) = Some (res, st1)" and
    tr: "trace st = trace st1"
    by blast
  from try_block_trace [OF tb] obtain ok ext where
    "trace st1 = Attach pid ok # ext" "alternating ok ext" "\<not> ok \<longrightarrow> ext = []"
    "ok \<and> list_all (\<lambda>e. \<not> is_failure e) ext \<longrightarrow> attached_after True ext"
    by (auto simp: init_state_def)
  with tr have old: "alternating False (trace st) \<and>
         (trace st = [] \<or> (\<exists>pid ok ext. trace st = Attach pid ok # ext)) \<and>
         (trace st \<noteq> [] \<and> list_all (\<lambda>e. \<not> is_failure e) (trace st)
            \<longrightarrow> attached_after False (trace st))"
    by auto
  from run_calls [OF r] have ex: "\<exists>pid I. program_trace pid I (trace st)"
    by blast
  have "program_trace (strtol (argv1 ! nat (int (length argv) - 1)))
              (micros env sample_rate) (trace st) \<and>
            (\<not> truthy env seconds \<longrightarrow> list_all (\<lambda>e. \<not> is_detach e) (trace st))"
    if "getopt_long env argv optstring long_options = (rets, optind, argv1)"
      and "parse_options env rets (d_zero env) (d_rate env) (init_state w)
            = Inr (seconds, sample_rate)"
  proof -
    from main_run [OF assms that] False have
      "run fuel env (strtol (argv1 ! nat (int (length argv) - 1))) seconds sample_rate
         (init_state w) = Some (oc, st)"
      by simp
    then show ?thesis
      by (rule run_calls)
  qed
  with old ex show ?thesis
    by simp
qed

lemmas main_eval =
  main_def gnu_getopt_long_def scan_long_def lookup_long_def optstring_def long_options_def
  stod_decimal_def isdigit_def digits_value_def digit_value_def strtol_def isspace_def
  LONG_MAX_def LONG_MIN_def PID_MAX_def PID_MIN_def usage_str_def

theorem attach_detach_order_witness:
  "main 3 scripted [''pystack'', ''-s'', ''0.02'', ''42'']
       (target42 [Inr [frame_A], Inr [frame_A]] 0) =
     Some (Return 0,
       \<lparr>world = \<lparr>clock = 10000, walks = [], walk_time = 0, live_pid = 42\<rparr>,
        trace = [Attach 42 True, Walk (Inr [frame_A]), Detach 42 True, Sleep 10000,
                 Attach 42 True, Walk (Inr [frame_A])],
        out = ''app.py:main:10 2'' @ endl, err = []\<rparr>) \<and>
   alternating False [Attach 42 True, Walk (Inr [frame_A]), Detach 42 True, Sleep 10000,
                 Attach 42 True, Walk (Inr [frame_A])] \<and>
   attached_after False [Attach 42 True, Walk (Inr [frame_A]), Detach 42 True, Sleep 10000,
                 Attach 42 True, Walk (Inr [frame_A])] \<and>
   program_trace 42 10000 [Attach 42 True, Walk (Inr [frame_A]), Detach 42 True, Sleep 10000,
                 Attach 42 True, Walk (Inr [frame_A])] \<and>
   main 1 scripted [''pystack'', ''42''] (target42 [Inr [frame_A]] 0) =
     Some (Return 0,
       \<lparr>world = \<lparr>clock = 0, walks = [], walk_time = 0, live_pid = 42\<rparr>,
        trace = [Attach 42 True, Walk (Inr [frame_A])],
        out = ''app.py:main:10'' @ endl, err = []\<rparr>) \<and>
   list_all (\<lambda>e. \<not> is_detach e) [Attach 42 True, Walk (Inr [frame_A])]"
proof -
  let ?argv = "[''pystack'', ''-s'', ''0.02'', ''42'']"
  let ?w = "target42 [Inr [frame_A], Inr [frame_A]] 0"
  let ?argv1 = "[''pystack'', ''42'']"
  let ?w1 = "target42 [Inr [frame_A]] 0"
  have m: "main 3 scripted ?argv ?w =
     Some (Return 0,
       \<lparr>world = \<lparr>clock = 10000, walks = [], walk_time = 0, live_pid = 42\<rparr>,
        trace = [Attach 42 True, Walk (Inr [frame_A]), Detach 42 True, Sleep 10000,
                 Attach 42 True, Walk (Inr [frame_A])],
        out = ''app.py:main:10 2'' @ endl, err = []\<rparr>)"
    by (simp add: main_eval scripted_eval scripted_fields print_results_def print_bucket_def
        show_eval del: umap_find.simps(2))
  have g: "getopt_long scripted ?argv optstring long_options = ([(115, ''0.02'')], 3, ?argv)"
    by (simp add: scripted_def main_eval)
  have p: "parse_options scripted [(115, ''0.02'')] (d_zero scripted) (d_rate scripted)
             (init_state ?w) = Inr (1 / 50, 1 / 100)"
    by (simp add: scripted_def main_eval)
  have v: "strtol (?argv ! nat (int (length ?argv) - 1)) = 42"
    "micros scripted (1 / 100) = 10000"
    by (simp_all add: main_eval scripted_def trunc_micros_def)
  have m1: "main 1 scripted ?argv1 ?w1 =
     Some (Return 0,
       \<lparr>world = \<lparr>clock = 0, walks = [], walk_time = 0, live_pid = 42\<rparr>,
        trace = [Attach 42 True, Walk (Inr [frame_A])],
        out = ''app.py:main:10'' @ endl, err = []\<rparr>)"
    by (simp add: main_eval scripted_eval scripted_fields show_eval)
  have g1: "getopt_long scripted ?argv1 optstring long_options = ([], 1, ?argv1)"
    by (simp add: scripted_def main_eval)
  have p1: "parse_options scripted [] (d_zero scripted) (d_rate scripted)
             (init_state ?w1) = Inr (0, 1 / 100)"
    "\<not> truthy scripted 0"
    by (simp_all add: scripted_def)
  from attach_detach_order [OF m, of "[(115, ''0.02'')]" 3 ?argv "1 / 50" "1 / 100"] g p v
  have 1: "alternating False [Attach 42 True, Walk (Inr [frame_A]), Detach 42 True, Sleep 10000,
                 Attach 42 True, Walk (Inr [frame_A])] \<and>
   attached_after False [Attach 42 True, Walk (Inr [frame_A]), Detach 42 True, Sleep 10000,
                 Attach 42 True, Walk (Inr [frame_A])] \<and>
   program_trace 42 10000 [Attach 42 True, Walk (Inr [frame_A]), Detach 42 True, Sleep 10000,
                 Attach 42 True, Walk (Inr [frame_A])]"
    by simp
  from attach_detach_order [OF m1, of "[]" 1 ?argv1 0 "1 / 100"] g1 p1
  have 2: "list_all (\<lambda>e. \<not> is_detach e) [Attach 42 True, Walk (Inr [frame_A])]"
    by simp
  from m m1 1 2 show ?thesis
    by blast
qed

theorem no_detach_at_exit_counterexample:
  "main 1 scripted [''pystack'', ''42''] (target42 [Inr [frame_B, frame_A]] 0) =
     Some (Return 0,
       \<lparr>world = \<lparr>clock = 0, walks = [], walk_time = 0, live_pid = 42\<rparr>,
        trace = [Attach 42 True, Walk (Inr [frame_B, frame_A])],
        out = ''app.py:main:10'' @ endl @ ''app.py:work:25'' @ endl, err = []\<rparr>)"
  by (simp add: main_eval scripted_eval scripted_fields show_eval)

section \<open>Exceptions and exit codes\<close>

lemma sampling_output:
  "sampling fuel env pid addr s r st = Some (x, st') \<Longrightarrow> out st' = out st \<and> err st' = err st"
  using sample_loop_output [of fuel env pid addr _ _ "[]" 0 _ x st']
  by (simp add: sampling_unfold)

text \<open>An exception that leaves the \<open>try\<close> block leaves both output streams as they were.\<close>

lemma try_block_thrown_output:
  assumes "try_block fuel env pid s r st = Some (Inl e, st')"
  shows "out st' = out st \<and> err st' = err st"
proof -
  obtain a st1 where A: "attach env pid st = (a, st1)"
    by (cases "attach env pid st")
  then have o1: "out st1 = out st \<and> err st1 = err st"
    by (auto simp: attach_def split: prod.splits)
  show ?thesis
  proof (cases a)
    case (Inl e')
    with assms A o1 try_block_attach_fails [of env pid st e' st1 fuel s r] show ?thesis
      by auto
  next
    case (Inr u)
    obtain t w where T: "ThreadStateAddr env pid (world st1) = (t, w)"
      by (cases "ThreadStateAddr env pid (world st1)")
    show ?thesis
    proof (cases t)
      case (Inl e')
      with assms A Inr T o1 try_block_addr_fails [of env pid st u st1 e' w fuel s r]
      show ?thesis
        by auto
    next
      case addr: (Inr addr)
      show ?thesis
      proof (cases "truthy env s")
        case True
        from assms try_block_sampling [OF A [unfolded Inr] T [unfolded addr] True, of fuel r]
        have "sampling fuel env pid addr s r (st1\<lparr>world := w\<rparr>) = Some (Inl e, st')"
          by (auto split: option.splits prod.splits sum.splits)
        from sampling_output [OF this] o1 show ?thesis
          by simp
      next
        case False
        obtain x st2 where R: "RunOnce env pid addr (st1\<lparr>world := w\<rparr>) = (x, st2)"
          by (cases "RunOnce env pid addr (st1\<lparr>world := w\<rparr>)")
        with assms try_block_once [OF A [unfolded Inr] T [unfolded addr] False, of fuel r]
        have "x = Inl e" "st' = st2"
          by (cases x; auto)+
        with RunOnce_effect [OF R] o1 show ?thesis
          by simp
      qed
    qed
  qed
qed

text \<open>How \<open>main\<close> ends when an exception leaves the \<open>try\<close> block.\<close>

lemma run_fatal:
  assumes "run fuel env pid s r st = Some (oc, st')"
    and "try_block fuel env pid s r st = Some (Inl (FatalException m), st1)"
  shows "oc = Return 1 \<and> out st' = out st \<and> err st' = err st @ m @ endl"
  using assms try_block_thrown_output [OF assms(2)]
  by (auto simp: run_def eprint_def)

lemma scripted_fatal_only: "fatal_only scripted"
  by (auto simp: fatal_only_def scripted_def split: if_splits)

text \<open>
  Claim C6. When a \<open>FatalException\<close> leaves the \<open>try\<close> block, \<open>main\<close> writes its message
  and a newline to the standard error and returns 1, and nothing has been written to the
  standard output: the folded stacks are printed only after the loop. When a
  \<open>NonFatalException\<close> leaves the block, as it does from the walk of a single-shot run,
  \<open>main\<close> writes its message and returns 0. An exception thrown by the first attach, by
  \<open>ThreadStateAddr\<close> or by the walk of a single-shot run leaves the block. So does one
  thrown in the sampling loop: a pass whose walk throws a \<open>FatalException\<close> ends the
  loop with it, and every run in which some walk, in any pass and either mode, threw a
  \<open>FatalException\<close> has exit code 1, that message on the standard error and an untouched
  standard output; the same holds, in an environment whose attach and detach throw
  nothing but \<open>FatalException\<close>, of every run in which an attach or a detach failed,
  the first attach or one inside the loop.
\<close>

theorem exception_exit_codes:
  "(try_block fuel env pid s r st = Some (Inl (FatalException m), st1) \<longrightarrow>
      run fuel env pid s r st = Some (Return 1, st1\<lparr>err := err st @ m @ endl\<rparr>) \<and>
      out st1 = out st) \<and>
   (try_block fuel env pid s r st = Some (Inl (NonFatalException m), st1) \<longrightarrow>
      run fuel env pid s r st = Some (Return 0, st1\<lparr>err := err st @ m @ endl\<rparr>) \<and>
      out st1 = out st) \<and>
   (PtraceAttach env pid (world st) = (Inl e, w1) \<longrightarrow>
      try_block fuel env pid s r st =
        Some (Inl e, st\<lparr>world := w1, trace := trace st @ [Attach pid False]\<rparr>)) \<and>
   (PtraceAttach env pid (world st) = (Inr u, w1) \<and>
    ThreadStateAddr env pid w1 = (Inl e, w2) \<longrightarrow>
      try_block fuel env pid s r st =
        Some (Inl e, st\<lparr>world := w2, trace := trace st @ [Attach pid True]\<rparr>)) \<and>
   (PtraceAttach env pid (world st) = (Inr u, w1) \<and>
    ThreadStateAddr env pid w1 = (Inr addr, w2) \<and> \<not> truthy env s \<and>
    GetStack env pid addr w2 = (Inl e, w3) \<longrightarrow>
      try_block fuel env pid s r st =
        Some (Inl e, st\<lparr>world := w3, trace := trace st @ [Attach pid True, Walk (Inl e)]\<rparr>)) \<and>
   (PtraceAttach env pid (world st) = (Inr u, w1) \<and>
    ThreadStateAddr env pid w1 = (Inr addr, w2) \<and> truthy env s \<and>
    sampling fuel env pid addr s r (st\<lparr>trace := trace st @ [Attach pid True], world := w2\<rparr>)
      = Some (Inl e, st2) \<longrightarrow>
      try_block fuel env pid s r st = Some (Inl e, st2)) \<and>
   (GetStack env pid addr (world stl) = (Inl (FatalException m), wl) \<longrightarrow>
      sample_loop (Suc k) env pid addr I E b n stl =
        Some (Inl (FatalException m),
          stl\<lparr>world := wl, trace := trace stl @ [Walk (Inl (FatalException m))]\<rparr>)) \<and>
   (run fuel env pid s r st = Some (oc, st') \<and> trace st = [] \<and>
    Walk (Inl (FatalException m)) \<in> set (trace st') \<longrightarrow>
      oc = Return 1 \<and> out st' = out st \<and> err st' = err st @ m @ endl) \<and>
   (fatal_only env \<and> run fuel env pid s r st = Some (oc, st') \<and> trace st = [] \<and>
    list_ex is_failure (trace st') \<longrightarrow>
      oc = Return 1 \<and> out st' = out st \<and> (\<exists>m'. err st' = err st @ m' @ endl))"
proof (intro conjI impI)
  assume tb: "try_block fuel env pid s r st = Some (Inl (FatalException m), st1)"
  from try_block_thrown_output [OF tb] show "out st1 = out st"
    by simp
  from tb try_block_thrown_output [OF tb]
  show "run fuel env pid s r st = Some (Return 1, st1\<lparr>err := err st @ m @ endl\<rparr>)"
    by (simp add: run_def eprint_def)
next
  assume tb: "try_block fuel env pid s r st = Some (Inl (NonFatalException m), st1)"
  from try_block_thrown_output [OF tb] show "out st1 = out st"
    by simp
  from tb try_block_thrown_output [OF tb]
  show "run fuel env pid s r st = Some (Return 0, st1\<lparr>err := err st @ m @ endl\<rparr>)"
    by (simp add: run_def eprint_def)
next
  assume "PtraceAttach env pid (world st) = (Inl e, w1)"
  then show "try_block fuel env pid s r st =
      Some (Inl e, st\<lparr>world := w1, trace := trace st @ [Attach pid False]\<rparr>)"
    by (simp add: try_block_def attach_def is_ok_def)
next
  assume "PtraceAttach env pid (world st) = (Inr u, w1) \<and>
    ThreadStateAddr env pid w1 = (Inl e, w2)"
  then show "try_block fuel env pid s r st =
      Some (Inl e, st\<lparr>world := w2, trace := trace st @ [Attach pid True]\<rparr>)"
    by (simp add: try_block_def attach_def is_ok_def)
next
  assume "PtraceAttach env pid (world st) = (Inr u, w1) \<and>
    ThreadStateAddr env pid w1 = (Inr addr, w2) \<and> \<not> truthy env s \<and>
    GetStack env pid addr w2 = (Inl e, w3)"
  then show "try_block fuel env pid s r st =
      Some (Inl e, st\<lparr>world := w3, trace := trace st @ [Attach pid True, Walk (Inl e)]\<rparr>)"
    by (simp add: try_block_def attach_def is_ok_def RunOnce_def get_stack_def)
next
  assume "PtraceAttach env pid (world st) = (Inr u, w1) \<and>
    ThreadStateAddr env pid w1 = (Inr addr, w2) \<and> truthy env s \<and>
    sampling fuel env pid addr s r (st\<lparr>trace := trace st @ [Attach pid True], world := w2\<rparr>)
      = Some (Inl e, st2)"
  then have "attach env pid st = (Inr u, st\<lparr>world := w1, trace := trace st @ [Attach pid True]\<rparr>)"
    and "ThreadStateAddr env pid
           (world (st\<lparr>world := w1, trace := trace st @ [Attach pid True]\<rparr>)) = (Inr addr, w2)"
    and "truthy env s"
    and "sampling fuel env pid addr s r
           (st\<lparr>world := w1, trace := trace st @ [Attach pid True]\<rparr>\<lparr>world := w2\<rparr>)
         = Some (Inl e, st2)"
    by (simp_all add: attach_def is_ok_def)
  from try_block_sampling [OF this(1,2,3), of fuel r] this(4)
  show "try_block fuel env pid s r st = Some (Inl e, st2)"
    by simp
next
  assume "GetStack env pid addr (world stl) = (Inl (FatalException m), wl)"
  then show "sample_loop (Suc k) env pid addr I E b n stl =
        Some (Inl (FatalException m),
          stl\<lparr>world := wl, trace := trace stl @ [Walk (Inl (FatalException m))]\<rparr>)"
    by (simp add: loop_body_def capture_def get_stack_def)
next
  assume a: "run fuel env pid s r st = Some (oc, st') \<and> trace st = [] \<and>
    Walk (Inl (FatalException m)) \<in> set (trace st')"
  then have r: "run fuel env pid s r st = Some (oc, st')"
    by simp
  from run_trace [OF r] obtain res st1 where
    tb: "try_block fuel env pid s r st = Some (res, st1)" and tr: "trace st' = trace st1"
    by blast
  from try_block_calls [OF tb] a tr have "res = Inl (FatalException m)"
    by auto
  with tb run_fatal [OF r]
  show "oc = Return 1" and "out st' = out st" and "err st' = err st @ m @ endl"
    by simp_all
next
  assume a: "fatal_only env \<and> run fuel env pid s r st = Some (oc, st') \<and> trace st = [] \<and>
    list_ex is_failure (trace st')"
  then have r: "run fuel env pid s r st = Some (oc, st')" and f: "fatal_only env"
    by simp_all
  from run_trace [OF r] obtain res st1 where
    tb: "try_block fuel env pid s r st = Some (res, st1)" and tr: "trace st' = trace st1"
    by blast
  from try_block_calls [OF tb] obtain ok ext where
    shape: "trace st1 = trace st @ Attach pid ok # ext"
      "if ok then ext = [] \<or> loop_trace pid (micros env r) ext
       else ext = [] \<and> (\<exists>e. res = Inl e \<and> fst (PtraceAttach env pid (world st)) = Inl e)"
      "(\<exists>ev \<in> set ext. is_failure ev) \<longrightarrow>
         (\<exists>e p w. res = Inl e \<and>
            (fst (PtraceDetach env p w) = Inl e \<or> fst (PtraceAttach env p w) = Inl e))"
    by blast
  from a tr shape(1) have "\<not> ok \<or> (\<exists>ev \<in> set ext. is_failure ev)"
    by (auto simp: list_ex_iff)
  with shape(2,3) have "\<exists>e p w. res = Inl e \<and>
       (fst (PtraceDetach env p w) = Inl e \<or> fst (PtraceAttach env p w) = Inl e)"
    by (auto split: if_splits)
  with f obtain m' where "res = Inl (FatalException m')"
    unfolding fatal_only_def by blast
  with tb run_fatal [OF r]
  show "oc = Return 1" and "out st' = out st" and "\<exists>m'. err st' = err st @ m' @ endl"
    by blast+
qed


theorem exception_exit_codes_witness:
  "run 1 scripted 7 0 (1 / 100) (init_state (target42 [] 0)) =
     Some (Return 1, (init_state (target42 [] 0))
        \<lparr>trace := [Attach 7 False], err := ''Failed to attach to PID'' @ endl\<rparr>) \<and>
   run 1 scripted 42 0 (1 / 100)
       (init_state (target42 [Inl (NonFatalException ''gone'')] 0)) =
     Some (Return 0, (init_state (target42 [] 0))
        \<lparr>trace := [Attach 42 True, Walk (Inl (NonFatalException ''gone''))],
         err := ''gone'' @ endl\<rparr>) \<and>
   try_block 1 (scripted\<lparr>ThreadStateAddr := \<lambda>pid w. (Inl (FatalException ''no runtime''), w)\<rparr>)
       42 0 (1 / 100) (init_state (target42 [] 0)) =
     Some (Inl (FatalException ''no runtime''),
       (init_state (target42 [] 0))\<lparr>trace := [Attach 42 True]\<rparr>) \<and>
   run 2 scripted 42 (1 / 50) (1 / 100)
       (init_state (target42 [Inr [frame_A], Inl (FatalException ''bad frame'')] 0)) =
     Some (Return 1,
       \<lparr>world = \<lparr>clock = 10000, walks = [], walk_time = 0, live_pid = 42\<rparr>,
        trace = [Attach 42 True, Walk (Inr [frame_A]), Detach 42 True, Sleep 10000,
                 Attach 42 True, Walk (Inl (FatalException ''bad frame''))],
        out = [], err = ''bad frame'' @ endl\<rparr>) \<and>
   sample_loop (Suc 0) scripted 42 4096 10000 20000 [] 0
       (init_state (target42 [Inl (FatalException ''bad frame'')] 0)) =
     Some (Inl (FatalException ''bad frame''),
       (init_state (target42 [] 0))\<lparr>trace := [Walk (Inl (FatalException ''bad frame''))]\<rparr>) \<and>
   Walk (Inl (FatalException ''bad frame''))
     \<in> set [Attach 42 True, Walk (Inr [frame_A]), Detach 42 True, Sleep 10000,
              Attach 42 True, Walk (Inl (FatalException ''bad frame''))] \<and>
   fatal_only scripted \<and> list_ex is_failure [Attach 7 False]"
proof -
  let ?w0 = "target42 [] 0"
  let ?w1 = "target42 [Inl (NonFatalException ''gone'')] 0"
  let ?w5 = "target42 [Inl (FatalException ''bad frame'')] 0"
  let ?w2 = "target42 [Inr [frame_A], Inl (FatalException ''bad frame'')] 0"
  let ?env = "scripted\<lparr>ThreadStateAddr := \<lambda>pid w. (Inl (FatalException ''no runtime''), w)\<rparr>"
  let ?st2 = "\<lparr>world = \<lparr>clock = 10000, walks = [], walk_time = 0, live_pid = 42\<rparr>,
        trace = [Attach 42 True, Walk (Inr [frame_A]), Detach 42 True, Sleep 10000,
                 Attach 42 True, Walk (Inl (FatalException ''bad frame''))],
        out = [], err = []\<rparr>"
  have a: "PtraceAttach scripted 7 ?w0 = (Inl (FatalException ''Failed to attach to PID''), ?w0)"
    by (simp add: scripted_fields)
  have b: "PtraceAttach scripted 42 ?w1 = (Inr (), ?w1)"
    "ThreadStateAddr scripted 42 ?w1 = (Inr 4096, ?w1)" "\<not> truthy scripted 0"
    "GetStack scripted 42 4096 ?w1 = (Inl (NonFatalException ''gone''), ?w0)"
    by (simp_all add: scripted_fields scripted_walk_def)
  have c: "PtraceAttach ?env 42 ?w0 = (Inr (), ?w0)"
    "ThreadStateAddr ?env 42 ?w0 = (Inl (FatalException ''no runtime''), ?w0)"
    by (simp_all add: scripted_fields)
  have d: "PtraceAttach scripted 42 ?w2 = (Inr (), ?w2)"
    "ThreadStateAddr scripted 42 ?w2 = (Inr 4096, ?w2)" "truthy scripted (1 / 50)"
    by (simp_all add: scripted_fields)
  have s: "sampling 2 scripted 42 4096 (1 / 50) (1 / 100)
             ((init_state ?w2)\<lparr>trace := trace (init_state ?w2) @ [Attach 42 True], world := ?w2\<rparr>)
           = Some (Inl (FatalException ''bad frame''), ?st2)"
    by (simp add: loop_eval scripted_fields del: umap_find.simps(2))
  note t = exception_exit_codes
  note i1 = t [where fuel = 1 and env = scripted and pid = 7 and s = 0 and r = "1 / 100"
            and st = "init_state ?w0" and m = "''Failed to attach to PID''"
            and e = "FatalException ''Failed to attach to PID''" and ?w1.0 = ?w0
            and oc = "Return 1"
            and st' = "(init_state ?w0)
              \<lparr>trace := [Attach 7 False], err := ''Failed to attach to PID'' @ endl\<rparr>"]
  from i1 [THEN conjunct1] i1 [THEN conjunct2, THEN conjunct2, THEN conjunct1] a
  have 1: "run 1 scripted 7 0 (1 / 100) (init_state ?w0) =
     Some (Return 1, (init_state ?w0)
        \<lparr>trace := [Attach 7 False], err := ''Failed to attach to PID'' @ endl\<rparr>)"
    by (simp add: init_state_def)
  note i2 = t [where fuel = 1 and env = scripted and pid = 42 and s = 0 and r = "1 / 100"
            and st = "init_state ?w1" and m = "''gone''"
            and e = "NonFatalException ''gone''" and ?w1.0 = ?w1 and u = "()"
            and ?w2.0 = ?w1 and addr = 4096 and ?w3.0 = ?w0]
  from i2 [THEN conjunct2, THEN conjunct1] i2 [THEN conjunct2, THEN conjunct2, THEN conjunct2, THEN conjunct2, THEN conjunct1] b
  have 2: "run 1 scripted 42 0 (1 / 100) (init_state ?w1) =
     Some (Return 0, (init_state ?w0)
        \<lparr>trace := [Attach 42 True, Walk (Inl (NonFatalException ''gone''))],
         err := ''gone'' @ endl\<rparr>)"
    by (simp add: init_state_def)
  note i3 = t [where fuel = 1 and env = ?env and pid = 42 and s = 0 and r = "1 / 100"
            and st = "init_state ?w0"
            and e = "FatalException ''no runtime''" and ?w1.0 = ?w0 and u = "()"
            and ?w2.0 = ?w0]
  from i3 [THEN conjunct2, THEN conjunct2, THEN conjunct2, THEN conjunct1] c
  have 3: "try_block 1 ?env 42 0 (1 / 100) (init_state ?w0) =
     Some (Inl (FatalException ''no runtime''), (init_state ?w0)\<lparr>trace := [Attach 42 True]\<rparr>)"
    by (simp add: init_state_def)
  note i4 = t [where fuel = 2 and env = scripted and pid = 42 and s = "1 / 50" and r = "1 / 100"
            and st = "init_state ?w2" and m = "''bad frame''" and ?st1.0 = ?st2
            and e = "FatalException ''bad frame''" and ?w1.0 = ?w2 and u = "()"
            and ?w2.0 = ?w2 and addr = 4096 and ?st2.0 = ?st2 and oc = "Return 1"
            and st' = "?st2\<lparr>err := ''bad frame'' @ endl\<rparr>"]
  from i4 [THEN conjunct1] i4 [THEN conjunct2, THEN conjunct2, THEN conjunct2, THEN conjunct2, THEN conjunct2, THEN conjunct1] d s
  have 4: "run 2 scripted 42 (1 / 50) (1 / 100) (init_state ?w2) =
     Some (Return 1, ?st2\<lparr>err := ''bad frame'' @ endl\<rparr>)"
    by (simp add: init_state_def)
  have g: "GetStack scripted 42 4096 (world (init_state ?w5))
             = (Inl (FatalException ''bad frame''), ?w0)"
    by (simp add: scripted_fields scripted_walk_def)
  note i5 = t [where env = scripted and pid = 42 and addr = 4096 and stl = "init_state ?w5"
            and m = "''bad frame''" and wl = ?w0 and k = 0 and I = 10000 and E = 20000
            and b = "[]" and n = 0]
  from i5 [THEN conjunct2, THEN conjunct2, THEN conjunct2, THEN conjunct2, THEN conjunct2, THEN conjunct2, THEN conjunct1] g
  have 5: "sample_loop (Suc 0) scripted 42 4096 10000 20000 [] 0 (init_state ?w5) =
     Some (Inl (FatalException ''bad frame''),
       (init_state ?w0)\<lparr>trace := [Walk (Inl (FatalException ''bad frame''))]\<rparr>)"
    by (simp add: init_state_def target42_def)
  have mem: "Walk (Inl (FatalException ''bad frame''))
     \<in> set [Attach 42 True, Walk (Inr [frame_A]), Detach 42 True, Sleep 10000,
              Attach 42 True, Walk (Inl (FatalException ''bad frame''))]"
    by simp
  have tr0: "trace (init_state ?w2) = []" "trace (init_state ?w0) = []"
    by (simp_all add: init_state_def)
  have mem': "Walk (Inl (FatalException ''bad frame''))
     \<in> set (trace (?st2\<lparr>err := ''bad frame'' @ endl\<rparr>))"
    by simp
  from i4 [THEN conjunct2, THEN conjunct2, THEN conjunct2, THEN conjunct2, THEN conjunct2, THEN conjunct2, THEN conjunct2, THEN conjunct1] 4 tr0 mem'
  have 6: "out (?st2\<lparr>err := ''bad frame'' @ endl\<rparr>) = out (init_state ?w2) \<and>
           err (?st2\<lparr>err := ''bad frame'' @ endl\<rparr>) = err (init_state ?w2) @ ''bad frame'' @ endl"
    by blast
  have fl: "list_ex is_failure [Attach 7 False]"
    by simp
  have fl': "list_ex is_failure (trace ((init_state ?w0)
              \<lparr>trace := [Attach 7 False], err := ''Failed to attach to PID'' @ endl\<rparr>))"
    by simp
  from i1 [THEN conjunct2, THEN conjunct2, THEN conjunct2, THEN conjunct2, THEN conjunct2, THEN conjunct2, THEN conjunct2, THEN conjunct2] 1 tr0 fl' scripted_fatal_only
  have 7: "out ((init_state ?w0)
              \<lparr>trace := [Attach 7 False], err := ''Failed to attach to PID'' @ endl\<rparr>)
             = out (init_state ?w0)"
    by blast
  from 1 2 3 4 5 6 7 mem fl scripted_fatal_only show ?thesis
    by simp
qed

section \<open>The command line\<close>

subsection \<open>The decimal printer and \<open>strtol\<close>\<close>

lemma digit_value_digit_char: "d < 10 \<Longrightarrow> digit_value (digit_char d) = int d"
proof -
  assume "d < 10"
  then have "d \<in> {0, 1, 2, 3, 4, 5, 6, 7, 8, 9}"
    by auto
  then show ?thesis
    by (auto simp: digit_value_def digit_char_def)
qed

lemma digits_value_snoc: "digits_value (ds @ [c]) = 10 * digits_value ds + digit_value c"
  by (simp add: digits_value_def)

lemma show_nat_decimal: "digits_value (show_nat n) = int n"
proof (induction n rule: show_nat.induct)
  case (1 n)
  show ?case
  proof (cases "n < 10")
    case True
    then show ?thesis
      by (subst show_nat.simps) (simp add: digits_value_def digit_value_digit_char)
  next
    case False
    with 1 have "digits_value (show_nat (n div 10)) = int (n div 10)"
      by simp
    with False show ?thesis
      by (subst show_nat.simps) (simp add: digits_value_snoc digit_value_digit_char zdiv_int zmod_int)
  qed
qed

lemma strtol_no_digit:
  assumes "no_digit s"
  shows "strtol s = 0"
proof -
  let ?s1 = "dropWhile isspace s"
  let ?s2 = "case ?s1 of c # cs \<Rightarrow> if c = CHR ''-'' \<or> c = CHR ''+'' then cs else ?s1 | [] \<Rightarrow> ?s1"
  have "set ?s1 \<subseteq> set s"
    by (auto dest: set_dropWhileD)
  moreover have "set ?s2 \<subseteq> set ?s1"
    by (auto split: list.splits)
  ultimately have "\<forall>c \<in> set ?s2. \<not> isdigit c"
    using assms by (auto simp: no_digit_def list_all_iff)
  then have "takeWhile isdigit ?s2 = []"
    by (cases ?s2) auto
  then show ?thesis
    by (simp add: strtol_def Let_def digits_value_def LONG_MAX_def LONG_MIN_def)
qed

text \<open>
  Claim C7. When the options are read without \<open>main\<close> ending, one argument is left, and
  \<open>strtol\<close> gives for it a value above the largest or below the smallest \<open>pid_t\<close> (32
  bits), \<open>main\<close> writes \<open>PID\<close>, that value in decimal and \<open>is out of valid PID range.\<close>
  to the standard error and returns 1. No call on the target has been made: the trace
  is empty.
\<close>

theorem pid_out_of_range:
  assumes "getopt_long env argv optstring long_options = (rets, optind, argv1)"
    and "parse_options env rets (d_zero env) (d_rate env) (init_state w)
           = Inr (seconds, sample_rate)"
    and "optind = int (length argv) - 1"
    and "pid = strtol (argv1 ! nat (int (length argv) - 1))"
    and "PID_MAX < pid \<or> pid < PID_MIN"
  shows "main fuel env argv w =
           Some (Return 1,
             \<lparr>world = w, trace = [], out = [],
              err = ''PID '' @ show_int pid @ '' is out of valid PID range.'' @ endl\<rparr>)"
  using assms by (auto simp: main_def Let_def eprint_def init_state_def)

lemmas getopt_eval =
  gnu_getopt_long_def scan_long_def lookup_long_def optstring_def long_options_def

lemmas strtol_eval =
  strtol_def isspace_def isdigit_def digits_value_def digit_value_def LONG_MAX_def
  LONG_MIN_def PID_MAX_def PID_MIN_def

theorem pid_out_of_range_witness:
  "strtol ''999999999999'' = 999999999999 \<and> PID_MAX < 999999999999 \<and>
   main 1 scripted [''pystack'', ''999999999999''] (target42 [] 0) =
     Some (Return 1,
       \<lparr>world = target42 [] 0, trace = [], out = [],
        err = ''PID 999999999999 is out of valid PID range.'' @ endl\<rparr>)"
proof -
  let ?argv = "[''pystack'', ''999999999999'']"
  have g: "getopt_long scripted ?argv optstring long_options = ([], 1, ?argv)"
    by (simp add: scripted_def getopt_eval)
  have p: "parse_options scripted [] (d_zero scripted) (d_rate scripted)
             (init_state (target42 [] 0)) = Inr (0, 1 / 100)"
    by (simp add: scripted_def)
  have i: "(1::int) = int (length ?argv) - 1"
    by simp
  have v: "999999999999 = strtol (?argv ! nat (int (length ?argv) - 1))"
    by (simp add: strtol_eval)
  have r: "PID_MAX < 999999999999 \<or> 999999999999 < PID_MIN"
    by (simp add: PID_MAX_def)
  from pid_out_of_range [OF g p i v r, of 1] v r show ?thesis
    by (simp add: show_eval PID_MAX_def PID_MIN_def)
qed


text \<open>
  Claim C9. \<open>strtol\<close> is called with a null end pointer and its result is not checked
  for a failed parse: for an argument without any digit, such as \<open>abc\<close>, it gives 0, which
  lies in the range of \<open>pid_t\<close>. So when the options are read without \<open>main\<close> ending and
  that argument is the one left, \<open>main\<close> goes on as for pid 0: its first call on the
  target is \<open>PtraceAttach(0)\<close>, and in single-shot mode it returns from that run.
\<close>

theorem non_numeric_pid_is_zero:
  assumes "getopt_long env argv optstring long_options = (rets, optind, argv1)"
    and "parse_options env rets (d_zero env) (d_rate env) (init_state w)
           = Inr (seconds, sample_rate)"
    and "optind = int (length argv) - 1"
    and "no_digit (argv1 ! nat (int (length argv) - 1))"
  shows "strtol (argv1 ! nat (int (length argv) - 1)) = 0 \<and>
         main fuel env argv w = run fuel env 0 seconds sample_rate (init_state w) \<and>
         (main fuel env argv w = Some (oc, st) \<longrightarrow>
            (\<exists>ok ext. trace st = Attach 0 ok # ext)) \<and>
         (\<not> truthy env seconds \<longrightarrow> main fuel env argv w \<noteq> None)"
proof -
  from assms(4) have z: "strtol (argv1 ! nat (int (length argv) - 1)) = 0"
    by (rule strtol_no_digit)
  with assms(1-3) have m: "main fuel env argv w = run fuel env 0 seconds sample_rate (init_state w)"
    by (simp add: main_def Let_def PID_MAX_def PID_MIN_def)
  have "\<exists>ok ext. trace st = Attach 0 ok # ext"
    if "run fuel env 0 seconds sample_rate (init_state w) = Some (oc, st)"
  proof -
    from run_trace [OF that] obtain res st1 where
      "try_block fuel env 0 seconds sample_rate (init_state w) = Some (res, st1)"
      "trace st = trace st1"
      by blast
    with try_block_trace [of fuel env 0 seconds sample_rate "init_state w" res st1]
    show ?thesis
      by (auto simp: init_state_def)
  qed
  moreover have "run fuel env 0 seconds sample_rate (init_state w) \<noteq> None"
    if "\<not> truthy env seconds"
    using that
    by (auto simp: run_def try_block_def split: prod.splits sum.splits exc.splits)
  ultimately show ?thesis
    using z m by simp
qed

theorem non_numeric_pid_is_zero_witness:
  "no_digit ''abc'' \<and> strtol ''abc'' = 0 \<and>
   main 1 scripted [''pystack'', ''abc''] (target42 [] 0) =
     Some (Return 1,
       \<lparr>world = target42 [] 0, trace = [Attach 0 False], out = [],
        err = ''Failed to attach to PID'' @ endl\<rparr>)"
proof -
  let ?argv = "[''pystack'', ''abc'']"
  have g: "getopt_long scripted ?argv optstring long_options = ([], 1, ?argv)"
    by (simp add: scripted_def getopt_eval)
  have p: "parse_options scripted [] (d_zero scripted) (d_rate scripted)
             (init_state (target42 [] 0)) = Inr (0, 1 / 100)"
    by (simp add: scripted_def)
  have i: "(1::int) = int (length ?argv) - 1"
    by simp
  have n: "no_digit (?argv ! nat (int (length ?argv) - 1))"
    by (simp add: no_digit_def isdigit_def)
  have r: "run 1 scripted 0 0 (1 / 100) (init_state (target42 [] 0)) =
     Some (Return 1,
       \<lparr>world = target42 [] 0, trace = [Attach 0 False], out = [],
        err = ''Failed to attach to PID'' @ endl\<rparr>)"
    by (simp add: run_def try_block_def attach_def is_ok_def eprint_def scripted_fields)
  from non_numeric_pid_is_zero [OF g p i n, of 1] n r show ?thesis
    by simp
qed

text \<open>
  Claim C10, as the code has it. The option string \<open>hjr:s:v\<close> of line 69 holds the letter
  \<open>j\<close>, so \<open>getopt_long\<close> returns \<open>'j'\<close> = 106 for the option \<open>-j\<close> instead of \<open>'?'\<close>; the
  switch has no case for it, so the default branch calls \<open>abort()\<close>. That happens when
  the option loop gets to \<open>-j\<close>: if an option before it has ended \<open>main\<close> (\<open>-h\<close> and
  \<open>-v\<close> return 0, an argument of \<open>-r\<close> or \<open>-s\<close> that \<open>std::stod\<close> rejects terminates),
  \<open>main\<close> ends there instead.
\<close>

theorem j_option_aborts:
  "short_spec optstring CHR ''j'' = Some no_argument \<and>
   parse_options env (before @ (of_char CHR ''j'', optarg) # after) seconds sample_rate st =
     (case parse_options env before seconds sample_rate st of
        Inl ended \<Rightarrow> Inl ended
      | Inr opts \<Rightarrow> Inl (Abort, st)) \<and>
   (getopt_long env argv optstring long_options
      = (before @ (of_char CHR ''j'', optarg) # after, optind, argv1) \<and>
    parse_options env before (d_zero env) (d_rate env) (init_state w) = Inr opts \<longrightarrow>
      main fuel env argv w = Some (Abort, init_state w))"
proof -
  have p: "parse_options env (before @ (106, optarg) # after) s r st0 =
     (case parse_options env before s r st0 of
        Inl ended \<Rightarrow> Inl ended
      | Inr opts \<Rightarrow> Inl (Abort, st0))" for s r st0
    by (induction env before s r st0 rule: parse_options.induct)
      (auto split: option.splits)
  show ?thesis
    by (auto simp: p optstring_def main_def)
qed

theorem j_option_aborts_witness:
  "getopt_long scripted [''pystack'', ''-s'', ''0.5'', ''-j'', ''42''] optstring long_options =
     ([(115, ''0.5''), (106, [])], 4, [''pystack'', ''-s'', ''0.5'', ''-j'', ''42'']) \<and>
   main 1 scripted [''pystack'', ''-s'', ''0.5'', ''-j'', ''42''] (target42 [] 0) =
     Some (Abort, init_state (target42 [] 0))"
proof -
  let ?argv = "[''pystack'', ''-s'', ''0.5'', ''-j'', ''42'']"
  have g: "getopt_long scripted ?argv optstring long_options =
      ([(115, ''0.5'')] @ (of_char CHR ''j'', []) # [], 4, ?argv)"
    by (simp add: scripted_def getopt_eval)
  have p: "parse_options scripted [(115, ''0.5'')] (d_zero scripted) (d_rate scripted)
             (init_state (target42 [] 0)) = Inr (1 / 2, 1 / 100)"
    by (simp add: scripted_def stod_decimal_def isdigit_def digits_value_def digit_value_def)
  from j_option_aborts [of scripted "[(115, ''0.5'')]" "[]" "[]" _ _ _ ?argv 4 ?argv
      "target42 [] 0" "(1 / 2, 1 / 100)" 1] g p
  show ?thesis
    by simp
qed

theorem help_before_j_counterexample:
  "main 1 scripted [''pystack'', ''-h'', ''-j'', ''42''] (target42 [] 0) =
     Some (Return 0,
       \<lparr>world = target42 [] 0, trace = [], out = ''Usage: pystack [-h|--help] PID'' @ endl,
        err = []\<rparr>)"
  by (simp add: main_def scripted_def getopt_eval init_state_def print_def usage_str_def
      endl_def)

section \<open>The hash and the bucket lookup\<close>

lemma FrameHash_files: "FrameHash env frames = files_hash env (map frame_file frames)"
  unfolding FrameHash_def files_hash_def
  by (rule fold_cong) auto

lemma umap_find_None: "umap_find env frames buckets = None \<longleftrightarrow> frames \<notin> fst ` set buckets"
proof (induction buckets)
  case Nil
  show ?case by simp
next
  case (Cons kv kvs)
  obtain k c where kv: "kv = (k, c)" by (cases kv)
  from Cons.IH kv show ?case
    by (cases "k = frames") (simp_all add: umap_find_Cons del: umap_find.simps(2))
qed

lemma umap_find_Some:
  "umap_find env frames buckets = Some i \<Longrightarrow>
     i < length buckets \<and> fst (buckets ! i) = frames \<and> (\<forall>j<i. fst (buckets ! j) \<noteq> frames)"
proof (induction buckets arbitrary: i)
  case Nil
  then show ?case by simp
next
  case (Cons kv kvs)
  obtain k c where kv: "kv = (k, c)" by (cases kv)
  show ?case
  proof (cases "k = frames")
    case True
    with Cons.prems kv show ?thesis
      by (simp add: umap_find_Cons del: umap_find.simps(2))
  next
    case False
    with Cons.prems kv obtain i' where i': "umap_find env frames kvs = Some i'" "i = Suc i'"
      by (auto simp: umap_find_Cons simp del: umap_find.simps(2))
    from Cons.IH [OF i'(1)] i'(2) kv False show ?thesis
      by (auto simp: less_Suc_eq_0_disj)
  qed
qed

text \<open>
  Claim C8. \<open>FrameHash\<close> is a function of the file names of the frames, position by
  position: function names and line numbers do not enter it, so two stacks with the same
  file names have the same hash. The bucket of a stack is nevertheless found by equality
  of the whole stacks: \<open>find\<close> gives the first entry whose key equals the stack, or
  nothing when no key equals it, and counting one stack leaves the count of every other
  stack as it was, also of one with the same hash.
\<close>

theorem frame_hash_files_only:
  "FrameHash env frames = files_hash env (map frame_file frames) \<and>
   (map frame_file fs = map frame_file gs \<longrightarrow> FrameHash env fs = FrameHash env gs) \<and>
   (umap_find env frames buckets = None \<longleftrightarrow> frames \<notin> fst ` set buckets) \<and>
   (umap_find env frames buckets = Some i \<longrightarrow>
      i < length buckets \<and> fst (buckets ! i) = frames \<and>
      (\<forall>j<i. fst (buckets ! j) \<noteq> frames)) \<and>
   (fs \<noteq> gs \<longrightarrow> count_of gs (count_stack env fs buckets) = count_of gs buckets)"
  using umap_find_Some [of env frames buckets i]
  by (simp add: FrameHash_files umap_find_None count_of_count_stack)

theorem frame_hash_files_only_witness:
  "map frame_file [frame_B] = map frame_file [frame_A] \<and> [frame_B] \<noteq> [frame_A] \<and>
   FrameHash scripted [frame_B] = FrameHash scripted [frame_A] \<and>
   umap_find scripted [frame_B] [([frame_A], 1)] = None \<and>
   umap_find scripted [frame_A] [([frame_A], 1)] = Some 0 \<and>
   count_of [frame_A] (count_stack scripted [frame_B] [([frame_A], 1)]) = 1"
proof -
  have f: "map frame_file [frame_B] = map frame_file [frame_A]"
    by (simp add: frame_A_def frame_B_def)
  have d: "[frame_B] \<noteq> [frame_A]"
    by (simp add: frame_A_def frame_B_def)
  have k: "[frame_B] \<notin> fst ` set [([frame_A], 1::nat)]"
    by (simp add: frame_A_def frame_B_def)
  have s: "umap_find scripted [frame_A] [([frame_A], 1)] = Some 0"
    by (simp add: umap_find_Cons del: umap_find.simps(2))
  note t = frame_hash_files_only [of scripted "[frame_B]" "[frame_B]" "[frame_A]"
      "[([frame_A], 1)]" 0]
  from t f have h: "FrameHash scripted [frame_B] = FrameHash scripted [frame_A]"
    by blast
  from t k have n: "umap_find scripted [frame_B] [([frame_A], 1)] = None"
    by blast
  from t d have "count_of [frame_A] (count_stack scripted [frame_B] [([frame_A], 1)])
      = count_of [frame_A] [([frame_A], 1)]"
    by blast
  also have "\<dots> = 1"
    by (simp add: count_of_def)
  finally have c: "count_of [frame_A] (count_stack scripted [frame_B] [([frame_A], 1)]) = 1" .
  show ?thesis
    by (intro conjI) (rule f d h n s c)+
qed

end
